theory Spec2Isabelle
  imports Main "HOL-Library.Signed_Division" "HOL-Library.Sublist"
begin

section \<open>Machine topology and affinity: data model\<close>

text \<open>
  The layer kinds of \<^verbatim>\<open>kmp_hw_t\<close>.  \<^verbatim>\<open>KMP_HW_UNKNOWN\<close> is the
  value outside the valid range that \<^verbatim>\<open>KMP_ASSERT_VALID_HW_TYPE\<close> rejects.
\<close>

datatype kmp_hw_t =
    KMP_HW_UNKNOWN
  | KMP_HW_SOCKET
  | KMP_HW_PROC_GROUP
  | KMP_HW_NUMA
  | KMP_HW_DIE
  | KMP_HW_LLC
  | KMP_HW_L3
  | KMP_HW_TILE
  | KMP_HW_MODULE
  | KMP_HW_L2
  | KMP_HW_L1
  | KMP_HW_CORE
  | KMP_HW_THREAD

datatype kmp_hw_core_type_t =
    KMP_HW_CORE_TYPE_UNKNOWN
  | KMP_HW_CORE_TYPE_ATOM
  | KMP_HW_CORE_TYPE_CORE

text \<open>
  Modelled from the spec: the attribute class \<^verbatim>\<open>kmp_hw_attr_t\<close> is declared in a
  header that is not part of the sources.  The spec gives a hardware thread an optional
  core type and an optional core efficiency, either of which may be unknown; the
  source names the unknown efficiency \<^verbatim>\<open>UNKNOWN_CORE_EFF\<close>.
\<close>

record kmp_hw_attr_t =
  core_type :: kmp_hw_core_type_t
  core_eff :: int
  valid :: bool

definition UNKNOWN_CORE_EFF :: int where
  "UNKNOWN_CORE_EFF = -1"

definition is_core_type_valid :: "kmp_hw_attr_t \<Rightarrow> bool" where
  "is_core_type_valid a = (core_type a \<noteq> KMP_HW_CORE_TYPE_UNKNOWN)"

definition is_core_eff_valid :: "kmp_hw_attr_t \<Rightarrow> bool" where
  "is_core_eff_valid a = (core_eff a \<noteq> UNKNOWN_CORE_EFF)"

definition get_core_type :: "kmp_hw_attr_t \<Rightarrow> kmp_hw_core_type_t" where
  "get_core_type a = core_type a"

definition get_core_eff :: "kmp_hw_attr_t \<Rightarrow> int" where
  "get_core_eff a = core_eff a"

text \<open>The source's comment on \<^verbatim>\<open>_remove_radix1_layers\<close> fixes \<^verbatim>\<open>UNKNOWN_ID\<close> as -1.\<close>

definition UNKNOWN_ID :: int where
  "UNKNOWN_ID = -1"

record kmp_hw_thread_t =
  os_id :: int
  original_idx :: int
  ids :: "int list"
  sub_ids :: "int list"
  attrs :: kmp_hw_attr_t
  leader :: bool

text \<open>
  The topology object.  Arrays are lists; \<open>depth\<close> and \<open>num_hw_threads\<close> say how many
  leading entries are in use, as in the source.  \<open>hybrid\<close> stands for the result of
  \<^verbatim>\<open>__kmp_is_hybrid_cpu()\<close>, which the functions below only read.
\<close>

record kmp_topology_t =
  depth :: nat
  types :: "kmp_hw_t list"
  ratio :: "int list"
  count :: "int list"
  num_core_efficiencies :: int
  num_core_types :: nat
  core_types :: "kmp_hw_core_type_t list"
  equivalent :: "kmp_hw_t \<Rightarrow> kmp_hw_t"
  num_hw_threads :: nat
  hw_threads :: "kmp_hw_thread_t list"
  uniform :: bool
  compact :: int
  hybrid :: bool

definition get_type :: "kmp_topology_t \<Rightarrow> nat \<Rightarrow> kmp_hw_t" where
  "get_type tp level = types tp ! level"

section \<open>Sorting hardware threads by ids\<close>

text \<open>
  \<^verbatim>\<open>kmp_hw_thread_t::compare_ids\<close>: the loop over the levels, started at \<open>level\<close>,
  followed by the comparison of the OS ids.
\<close>

function compare_ids_from ::
  "kmp_topology_t \<Rightarrow> kmp_hw_thread_t \<Rightarrow> kmp_hw_thread_t \<Rightarrow> nat \<Rightarrow> int" where
  "compare_ids_from tp a b level =
    (if level < depth tp then
       if hybrid tp \<and> get_type tp level = KMP_HW_CORE \<and>
          is_core_eff_valid (attrs a) \<and> is_core_eff_valid (attrs b) \<and>
          get_core_eff (attrs a) < get_core_eff (attrs b) then 1
       else if hybrid tp \<and> get_type tp level = KMP_HW_CORE \<and>
          is_core_eff_valid (attrs a) \<and> is_core_eff_valid (attrs b) \<and>
          get_core_eff (attrs a) > get_core_eff (attrs b) then -1
       else if ids a ! level = ids b ! level then compare_ids_from tp a b (Suc level)
       else if ids a ! level = UNKNOWN_ID then 1
       else if ids b ! level = UNKNOWN_ID then -1
       else if ids a ! level < ids b ! level then -1
       else if ids a ! level > ids b ! level then 1
       else compare_ids_from tp a b (Suc level)
     else if os_id a < os_id b then -1
     else if os_id a > os_id b then 1
     else 0)"
  by pat_completeness auto
termination
  by (relation "measure (\<lambda>(tp, a, b, level). depth tp - level)") auto

declare compare_ids_from.simps [simp del]

definition compare_ids :: "kmp_topology_t \<Rightarrow> kmp_hw_thread_t \<Rightarrow> kmp_hw_thread_t \<Rightarrow> int" where
  "compare_ids tp a b = compare_ids_from tp a b 0"

text \<open>
  Vocabulary for the ordering: at a level the efficiencies are compared when the CPU is
  hybrid, the level is the core level and both threads carry a valid efficiency; two
  threads tie at a level when neither the efficiencies (where compared) nor the ids
  differ.
\<close>

definition eff_compared :: "kmp_topology_t \<Rightarrow> kmp_hw_thread_t \<Rightarrow> kmp_hw_thread_t \<Rightarrow> nat \<Rightarrow> bool" where
  "eff_compared tp a b level =
    (hybrid tp \<and> get_type tp level = KMP_HW_CORE \<and>
     is_core_eff_valid (attrs a) \<and> is_core_eff_valid (attrs b))"

definition level_tie :: "kmp_topology_t \<Rightarrow> kmp_hw_thread_t \<Rightarrow> kmp_hw_thread_t \<Rightarrow> nat \<Rightarrow> bool" where
  "level_tie tp a b level =
    ((eff_compared tp a b level \<longrightarrow> get_core_eff (attrs a) = get_core_eff (attrs b)) \<and>
     ids a ! level = ids b ! level)"

definition ties_below :: "kmp_topology_t \<Rightarrow> kmp_hw_thread_t \<Rightarrow> kmp_hw_thread_t \<Rightarrow> nat \<Rightarrow> bool" where
  "ties_below tp a b k = list_all (level_tie tp a b) [0..<k]"

text \<open>
  A small hybrid machine for examples: one socket, cores and threads as layers; a
  performance core thread \<open>ex_p\<close> (efficiency 1, core id 1), an efficiency core thread
  \<open>ex_e\<close> (efficiency 0, core id 0), and a second thread \<open>ex_p2\<close> with the ids of
  \<open>ex_p\<close> but a larger OS id.
\<close>

definition ex_attr :: "kmp_hw_core_type_t \<Rightarrow> int \<Rightarrow> kmp_hw_attr_t" where
  "ex_attr t e = \<lparr>core_type = t, core_eff = e, valid = True\<rparr>"

definition ex_thread :: "int \<Rightarrow> int list \<Rightarrow> kmp_hw_attr_t \<Rightarrow> kmp_hw_thread_t" where
  "ex_thread os is at =
     \<lparr>os_id = os, original_idx = os, ids = is, sub_ids = is, attrs = at, leader = False\<rparr>"

definition ex_p :: kmp_hw_thread_t where
  "ex_p = ex_thread 4 [0, 1, 0] (ex_attr KMP_HW_CORE_TYPE_CORE 1)"

definition ex_p2 :: kmp_hw_thread_t where
  "ex_p2 = ex_thread 5 [0, 1, 0] (ex_attr KMP_HW_CORE_TYPE_CORE 1)"

definition ex_e :: kmp_hw_thread_t where
  "ex_e = ex_thread 0 [0, 0, 0] (ex_attr KMP_HW_CORE_TYPE_ATOM 0)"

definition ex_hybrid_topology :: kmp_topology_t where
  "ex_hybrid_topology =
     \<lparr>depth = 3, types = [KMP_HW_SOCKET, KMP_HW_CORE, KMP_HW_THREAD],
      ratio = [1, 2, 1], count = [1, 2, 2], num_core_efficiencies = 2,
      num_core_types = 2, core_types = [KMP_HW_CORE_TYPE_CORE, KMP_HW_CORE_TYPE_ATOM],
      equivalent = (\<lambda>t. t), num_hw_threads = 3, hw_threads = [ex_p, ex_p2, ex_e],
      uniform = False, compact = 0, hybrid = True\<rparr>"

section \<open>Removing radix-1 layers\<close>

text \<open>
  The ways in which the modelled functions stop without a result: a failed
  \<^verbatim>\<open>KMP_ASSERT\<close>, a \<^verbatim>\<open>KMP_FATAL\<close> message, and the operations that have no
  defined behaviour in C++ (a division by zero, an access outside an array or through a
  null pointer).
\<close>

datatype error = AssertFailure | FatalError | DivisionByZero | OutOfBounds | NullDereference

text \<open>\<^verbatim>\<open>KMP_ASSERT_VALID_HW_TYPE\<close>: the type lies in the valid range of the enumeration.\<close>

definition valid_hw_type :: "kmp_hw_t \<Rightarrow> bool" where
  "valid_hw_type t = (t \<noteq> KMP_HW_UNKNOWN)"

text \<open>
  The preference table of \<^verbatim>\<open>_remove_radix1_layers\<close>.  The source leaves no entry
  for \<^verbatim>\<open>KMP_HW_UNKNOWN\<close>; it is never looked up, because the validity assertion
  comes first.
\<close>

fun preference :: "kmp_hw_t \<Rightarrow> int" where
  "preference KMP_HW_SOCKET = 110"
| "preference KMP_HW_PROC_GROUP = 100"
| "preference KMP_HW_CORE = 95"
| "preference KMP_HW_THREAD = 90"
| "preference KMP_HW_NUMA = 85"
| "preference KMP_HW_DIE = 80"
| "preference KMP_HW_TILE = 75"
| "preference KMP_HW_MODULE = 73"
| "preference KMP_HW_L3 = 70"
| "preference KMP_HW_L2 = 65"
| "preference KMP_HW_L1 = 60"
| "preference KMP_HW_LLC = 5"
| "preference KMP_HW_UNKNOWN = 0"


text \<open>
  Modelled from the spec: \<^verbatim>\<open>set_equivalent_type\<close> and \<^verbatim>\<open>get_equivalent_type\<close> are
  members declared in a header that is not part of the sources.  The spec describes the
  call in \<^verbatim>\<open>_remove_radix1_layers\<close> as setting \<open>equivalent[dropped] = kept\<close>.
\<close>

definition set_equivalent_type :: "kmp_hw_t \<Rightarrow> kmp_hw_t \<Rightarrow> kmp_topology_t \<Rightarrow> kmp_topology_t" where
  "set_equivalent_type type1 type2 tp = tp\<lparr>equivalent := (equivalent tp)(type1 := type2)\<rparr>"

definition get_equivalent_type :: "kmp_topology_t \<Rightarrow> kmp_hw_t \<Rightarrow> kmp_hw_t" where
  "get_equivalent_type tp t = equivalent tp t"

text \<open>
  The scan over the hardware threads from index \<open>hwidx\<close> on, with the ids of the previous
  thread in \<open>id1\<close> and \<open>id2\<close>; the result is the pair \<open>(radix1, all_same)\<close>.
\<close>

function radix1_scan ::
  "kmp_hw_thread_t list \<Rightarrow> nat \<Rightarrow> nat \<Rightarrow> nat \<Rightarrow> nat \<Rightarrow> int \<Rightarrow> int \<Rightarrow> bool \<Rightarrow> bool \<times> bool" where
  "radix1_scan hws n top_index1 top_index2 hwidx id1 id2 all_same =
    (if hwidx < n then
       if ids (hws ! hwidx) ! top_index1 = id1 \<and> ids (hws ! hwidx) ! top_index2 \<noteq> id2
       then (False, all_same)
       else radix1_scan hws n top_index1 top_index2 (Suc hwidx)
              (ids (hws ! hwidx) ! top_index1) (ids (hws ! hwidx) ! top_index2)
              (if ids (hws ! hwidx) ! top_index2 \<noteq> id2 then False else all_same)
     else (True, all_same))"
  by pat_completeness auto
termination
  by (relation "measure (\<lambda>(hws, n, i1, i2, hwidx, id1, id2, s). n - hwidx)") auto

declare radix1_scan.simps [simp del]

text \<open>The loops \<^verbatim>\<open>for (d = from; d < depth - 1; ++d) a[d] = a[d + 1]\<close>.\<close>

function shift_down :: "'a list \<Rightarrow> nat \<Rightarrow> nat \<Rightarrow> 'a list" where
  "shift_down xs d lim =
    (if d < lim then shift_down (xs[d := xs ! (d + 1)]) (Suc d) lim else xs)"
  by pat_completeness auto
termination
  by (relation "measure (\<lambda>(xs, d, lim). lim - d)") auto

declare shift_down.simps [simp del]

text \<open>Removing a layer: the equivalence, the ids of every thread, the types, the depth.\<close>

definition remove_layer ::
  "kmp_hw_t \<Rightarrow> kmp_hw_t \<Rightarrow> nat \<Rightarrow> nat \<Rightarrow> kmp_topology_t \<Rightarrow> kmp_topology_t" where
  "remove_layer remove_type keep_type remove_layer_idx remove_layer_ids tp =
    (let tp1 = set_equivalent_type remove_type keep_type tp;
         hws = map (\<lambda>(idx, hw_thread).
                 if idx < num_hw_threads tp1
                 then hw_thread\<lparr>ids := shift_down (ids hw_thread) remove_layer_ids (depth tp1 - 1)\<rparr>
                 else hw_thread)
               (zip [0..<length (hw_threads tp1)] (hw_threads tp1))
     in tp1\<lparr>hw_threads := hws,
             types := shift_down (types tp1) remove_layer_idx (depth tp1 - 1),
             depth := depth tp1 - 1\<rparr>)"

text \<open>
  What one iteration of the \<^verbatim>\<open>while\<close> loop of \<^verbatim>\<open>_remove_radix1_layers\<close>
  decides: to move on to the next pair of layers, or to remove a layer
  (\<open>remove_type\<close>, \<open>keep_type\<close>, \<open>remove_layer\<close>, \<open>remove_layer_ids\<close>).
\<close>

datatype radix1_decision = Advance | Remove kmp_hw_t kmp_hw_t nat nat

definition radix1_decide ::
  "kmp_topology_t \<Rightarrow> nat \<Rightarrow> nat \<Rightarrow> error + radix1_decision" where
  "radix1_decide tp top_index1 top_index2 =
    (let type1 = types tp ! top_index1;
         type2 = types tp ! top_index2
     in if \<not> valid_hw_type type1 \<or> \<not> valid_hw_type type2 then Inl AssertFailure
        else if (type1 = KMP_HW_THREAD \<or> type1 = KMP_HW_CORE \<or> type1 = KMP_HW_SOCKET) \<and>
                (type2 = KMP_HW_THREAD \<or> type2 = KMP_HW_CORE \<or> type2 = KMP_HW_SOCKET)
        then Inr Advance
        else
          let id1 = ids (hw_threads tp ! 0) ! top_index1;
              id2 = ids (hw_threads tp ! 0) ! top_index2;
              pref1 = preference type1;
              pref2 = preference type2;
              scan = radix1_scan (hw_threads tp) (num_hw_threads tp)
                       top_index1 top_index2 1 id1 id2 True;
              radix1 = fst scan;
              all_same = snd scan
          in if radix1 then
               (if pref1 > pref2
                then Inr (Remove type2 type1 top_index2 top_index2)
                else Inr (Remove type1 type2 top_index1 (if all_same then top_index2 else top_index1)))
             else Inr Advance)"

function remove_radix1_loop :: "kmp_topology_t \<Rightarrow> nat \<Rightarrow> nat \<Rightarrow> error + kmp_topology_t" where
  "remove_radix1_loop tp top_index1 top_index2 =
    (if top_index1 < depth tp - 1 \<and> top_index2 < depth tp then
       case radix1_decide tp top_index1 top_index2 of
         Inl e \<Rightarrow> Inl e
       | Inr Advance \<Rightarrow> remove_radix1_loop tp top_index2 (Suc top_index2)
       | Inr (Remove remove_type keep_type remove_layer_idx remove_layer_ids) \<Rightarrow>
           remove_radix1_loop
             (remove_layer remove_type keep_type remove_layer_idx remove_layer_ids tp)
             top_index1 top_index2
     else if depth tp > 0 then Inr tp else Inl AssertFailure)"
  by pat_completeness auto
termination
  by (relation "measure (\<lambda>(tp, i1, i2). depth tp - i2)")
     (auto simp: remove_layer_def set_equivalent_type_def Let_def)

declare remove_radix1_loop.simps [simp del]

definition remove_radix1_layers :: "kmp_topology_t \<Rightarrow> error + kmp_topology_t" where
  "remove_radix1_layers tp = remove_radix1_loop tp 0 1"

definition ex_die_thread :: "int \<Rightarrow> int list \<Rightarrow> kmp_hw_thread_t" where
  "ex_die_thread os is =
     ex_thread os is \<lparr>core_type = KMP_HW_CORE_TYPE_UNKNOWN, core_eff = UNKNOWN_CORE_EFF, valid = False\<rparr>"





section \<open>Enumeration, uniformity, sub ids and globals\<close>

text \<open>
  Modelled from the spec: the mask class is declared in a header that is not part of the
  sources.  The spec describes a mask as a set of OS processor ids with set, clear and
  test operations, which is what the macros \<^verbatim>\<open>KMP_CPU_SET\<close>, \<^verbatim>\<open>KMP_CPU_CLR\<close> and
  \<^verbatim>\<open>KMP_CPU_ISSET\<close> stand for.
\<close>

type_synonym kmp_affin_mask_t = "int set"

definition KMP_CPU_ISSET :: "int \<Rightarrow> kmp_affin_mask_t \<Rightarrow> bool" where
  "KMP_CPU_ISSET i msk = (i \<in> msk)"

definition KMP_CPU_SET :: "int \<Rightarrow> kmp_affin_mask_t \<Rightarrow> kmp_affin_mask_t" where
  "KMP_CPU_SET i msk = insert i msk"

definition KMP_CPU_CLR :: "int \<Rightarrow> kmp_affin_mask_t \<Rightarrow> kmp_affin_mask_t" where
  "KMP_CPU_CLR i msk = msk - {i}"

text \<open>
  The file-level and runtime-wide variables that the affinity code reads and writes.
  \<open>mic3\<close> stands for \<^verbatim>\<open>__kmp_mic_type == mic3\<close> in a build with
  \<^verbatim>\<open>KMP_MIC_SUPPORTED\<close>, \<open>affinity_capable\<close> for the result of the macro
  \<^verbatim>\<open>KMP_AFFINITY_CAPABLE()\<close>.
\<close>

record kmp_globals =
  nCoresPerPkg :: int
  nPackages :: int
  kmp_nThreadsPerCore :: int
  kmp_ncores :: int
  kmp_avail_proc :: int
  kmp_xproc :: int
  kmp_affin_fullMask :: kmp_affin_mask_t
  kmp_affin_origMask :: kmp_affin_mask_t
  mic3 :: bool
  affinity_capable :: bool
  kmp_env_consistency_check :: bool

text \<open>
  Modelled from the spec: \<^verbatim>\<open>KMP_HW_LAST\<close> and \<^verbatim>\<open>KMP_HW_MAX_NUM_CORE_TYPES\<close> are
  enumerators of a header that is not part of the sources.  The spec's closed
  enumerations have twelve layer kinds other than UNKNOWN and the three core types
  ATOM, CORE and UNKNOWN.
\<close>

definition KMP_HW_LAST :: nat where
  "KMP_HW_LAST = 12"

definition KMP_HW_MAX_NUM_CORE_TYPES :: nat where
  "KMP_HW_MAX_NUM_CORE_TYPES = 3"

text \<open>
  Modelled from the spec: the accessors \<^verbatim>\<open>get_level\<close>, \<^verbatim>\<open>get_count\<close> and
  \<^verbatim>\<open>get_ratio\<close> are declared in a header that is not part of the sources.  In the
  spec's data model a layer kind stands for its equivalent kind, and its level is the
  position of that kind in \<open>types\<close>; the source tests the result against -1 for a kind
  that has no level.
\<close>

function find_level :: "kmp_topology_t \<Rightarrow> kmp_hw_t \<Rightarrow> nat \<Rightarrow> int" where
  "find_level tp eq_type i =
    (if i < depth tp then
       if types tp ! i = eq_type then int i else find_level tp eq_type (Suc i)
     else -1)"
  by pat_completeness auto
termination
  by (relation "measure (\<lambda>(tp, t, i). depth tp - i)") auto

declare find_level.simps [simp del]

definition get_level :: "kmp_topology_t \<Rightarrow> kmp_hw_t \<Rightarrow> int" where
  "get_level tp t =
    (if equivalent tp t = KMP_HW_UNKNOWN then -1 else find_level tp (equivalent tp t) 0)"

definition get_count :: "kmp_topology_t \<Rightarrow> int \<Rightarrow> int" where
  "get_count tp level = count tp ! nat level"

definition get_ratio :: "kmp_topology_t \<Rightarrow> int \<Rightarrow> int" where
  "get_ratio tp level = ratio tp ! nat level"

text \<open>A step has succeeded when it did not stop at a failed assertion.\<close>

definition succeeded :: "error + 'a \<Rightarrow> bool" where
  "succeeded r = (case r of Inl e \<Rightarrow> False | Inr x \<Rightarrow> True)"

text \<open>Sequencing of steps that may stop at a failed assertion.\<close>

definition bind_err :: "error + 'a \<Rightarrow> ('a \<Rightarrow> error + 'b) \<Rightarrow> error + 'b" where
  "bind_err m f = (case m of Inl e \<Rightarrow> Inl e | Inr x \<Rightarrow> f x)"

subsection \<open>Gathering the enumeration information\<close>

text \<open>The body of \<^verbatim>\<open>if (hw_thread.attrs...)\<close> for hybrid CPUs: efficiencies and core types seen.\<close>

definition gather_hybrid :: "kmp_hw_thread_t \<Rightarrow> kmp_topology_t \<Rightarrow> error + kmp_topology_t" where
  "gather_hybrid hw_thread tp =
    (let tp1 = (if is_core_eff_valid (attrs hw_thread) \<and>
                   core_eff (attrs hw_thread) \<ge> num_core_efficiencies tp
                then tp\<lparr>num_core_efficiencies := core_eff (attrs hw_thread) + 1\<rparr>
                else tp)
     in if is_core_type_valid (attrs hw_thread) then
          if get_core_type (attrs hw_thread) \<in> set (take (num_core_types tp1) (core_types tp1))
          then Inr tp1
          else if \<not> num_core_types tp1 < KMP_HW_MAX_NUM_CORE_TYPES then Inl AssertFailure
          else Inr (tp1\<lparr>core_types :=
                           (core_types tp1)[num_core_types tp1 := get_core_type (attrs hw_thread)],
                        num_core_types := Suc (num_core_types tp1)\<rparr>)
        else Inr tp1)"

text \<open>
  What happens at the first layer whose id differs from the previous thread's: the counts
  of this and all inner layers, the running maximum of this layer, and the ratios and
  running maxima of the inner layers.
\<close>

definition gather_new_id ::
  "kmp_hw_thread_t \<Rightarrow> nat \<Rightarrow> kmp_topology_t \<times> int list \<Rightarrow> kmp_topology_t \<times> int list" where
  "gather_new_id hw_thread layer s =
    (let tp = fst s; mx = snd s;
         cnt = fold (\<lambda>l c. if ids hw_thread ! l \<noteq> UNKNOWN_ID then c[l := c ! l + 1] else c)
                 [layer..<depth tp] (count tp);
         mx1 = (if ids hw_thread ! layer \<noteq> UNKNOWN_ID then mx[layer := mx ! layer + 1] else mx);
         rm = fold (\<lambda>l (r, m). ((if m ! l > r ! l then r[l := m ! l] else r), m[l := 1]))
                 [Suc layer..<depth tp] (ratio tp, mx1)
     in (tp\<lparr>count := cnt, ratio := fst rm\<rparr>, snd rm))"

text \<open>The inner loop over the layers of one thread, left at the first layer with a new id.\<close>

function gather_layers ::
  "kmp_hw_thread_t \<Rightarrow> int \<Rightarrow> int list \<Rightarrow> nat \<Rightarrow> kmp_topology_t \<times> int list \<Rightarrow>
   error + (kmp_topology_t \<times> int list)" where
  "gather_layers hw_thread core_level previous_id layer s =
    (if layer < depth (fst s) then
       if ids hw_thread ! layer \<noteq> previous_id ! layer then
         (let s1 = gather_new_id hw_thread layer s
          in if hybrid (fst s) \<and> core_level \<ge> 0 \<and> int layer \<le> core_level then
               (case gather_hybrid hw_thread (fst s1) of
                  Inl e \<Rightarrow> Inl e
                | Inr tp2 \<Rightarrow> Inr (tp2, snd s1))
             else Inr s1)
       else gather_layers hw_thread core_level previous_id (Suc layer) s
     else Inr s)"
  by pat_completeness auto
termination
  by (relation "measure (\<lambda>(t, c, p, layer, s). depth (fst s) - layer)") auto

declare gather_layers.simps [simp del]

text \<open>The outer loop over the hardware threads \<open>i, \<dots>, n - 1\<close>.\<close>

function gather_threads ::
  "kmp_hw_thread_t list \<Rightarrow> nat \<Rightarrow> int \<Rightarrow> nat \<Rightarrow> int list \<Rightarrow> kmp_topology_t \<times> int list \<Rightarrow>
   error + (kmp_topology_t \<times> int list)" where
  "gather_threads hws n core_level i previous_id s =
    (if i < n then
       case gather_layers (hws ! i) core_level previous_id 0 s of
         Inl e \<Rightarrow> Inl e
       | Inr s1 \<Rightarrow>
           gather_threads hws n core_level (Suc i)
             (fold (\<lambda>layer p. p[layer := ids (hws ! i) ! layer]) [0..<depth (fst s)] previous_id)
             s1
     else Inr s)"
  by pat_completeness auto
termination
  by (relation "measure (\<lambda>(hws, n, c, i, p, s). n - i)") auto

declare gather_threads.simps [simp del]

text \<open>
  \<^verbatim>\<open>_gather_enumeration_information\<close>.  The local arrays \<^verbatim>\<open>previous_id\<close> and
  \<^verbatim>\<open>max\<close> have \<^verbatim>\<open>KMP_HW_LAST\<close> entries, of which the first \<open>depth\<close> are
  initialised and used.
\<close>

definition gather_enumeration_information :: "kmp_topology_t \<Rightarrow> error + kmp_topology_t" where
  "gather_enumeration_information tp =
    (let previous_id = replicate KMP_HW_LAST UNKNOWN_ID;
         mx = replicate KMP_HW_LAST 0;
         tp0 = tp\<lparr>count := fold (\<lambda>i c. c[i := 0]) [0..<depth tp] (count tp),
                  ratio := fold (\<lambda>i r. r[i := 0]) [0..<depth tp] (ratio tp)\<rparr>;
         core_level = get_level tp0 KMP_HW_CORE
     in case gather_threads (hw_threads tp0) (num_hw_threads tp0) core_level 0 previous_id (tp0, mx) of
          Inl e \<Rightarrow> Inl e
        | Inr s \<Rightarrow>
            Inr ((fst s)\<lparr>ratio :=
                   fold (\<lambda>layer r. if snd s ! layer > r ! layer then r[layer := snd s ! layer] else r)
                     [0..<depth (fst s)] (ratio (fst s))\<rparr>))"

subsection \<open>Uniformity\<close>

text \<open>
  The product in \<^verbatim>\<open>_discover_uniformity\<close> is computed in a C \<^verbatim>\<open>int\<close>.  Signed
  overflow has no defined result in C++; the model wraps around as the two's complement
  arithmetic of the supported targets does.
\<close>

definition int32_wrap :: "int \<Rightarrow> int" where
  "int32_wrap x = (x + 2 ^ 31) mod 2 ^ 32 - 2 ^ 31"

definition discover_uniformity :: "kmp_topology_t \<Rightarrow> kmp_topology_t" where
  "discover_uniformity tp =
    (let num = fold (\<lambda>level num. int32_wrap (num * ratio tp ! level)) [0..<depth tp] 1
     in tp\<lparr>uniform := (num = count tp ! (depth tp - 1))\<rparr>)"

subsection \<open>Sub ids\<close>

text \<open>The search for the first layer with a new id in \<^verbatim>\<open>_set_sub_ids\<close>.\<close>

function sub_id_layers :: "nat \<Rightarrow> kmp_hw_thread_t \<Rightarrow> int list \<Rightarrow> nat \<Rightarrow> int list \<Rightarrow> int list" where
  "sub_id_layers d hw_thread previous_id j sub_id =
    (if j < d then
       if ids hw_thread ! j \<noteq> previous_id ! j
       then fold (\<lambda>k s. s[k := 0]) [Suc j..<d] (sub_id[j := sub_id ! j + 1])
       else sub_id_layers d hw_thread previous_id (Suc j) sub_id
     else sub_id)"
  by pat_completeness auto
termination
  by (relation "measure (\<lambda>(d, t, p, j, s). d - j)") auto

declare sub_id_layers.simps [simp del]

function sub_id_threads ::
  "nat \<Rightarrow> nat \<Rightarrow> nat \<Rightarrow> int list \<Rightarrow> int list \<Rightarrow> kmp_hw_thread_t list \<Rightarrow> kmp_hw_thread_t list" where
  "sub_id_threads d n i previous_id sub_id hws =
    (if i < n then
       (let hw_thread = hws ! i;
            sub_id1 = sub_id_layers d hw_thread previous_id 0 sub_id;
            previous_id1 = fold (\<lambda>j p. p[j := ids hw_thread ! j]) [0..<d] previous_id;
            hw_thread1 = hw_thread\<lparr>sub_ids :=
                           fold (\<lambda>j s. s[j := sub_id1 ! j]) [0..<d] (sub_ids hw_thread)\<rparr>
        in sub_id_threads d n (Suc i) previous_id1 sub_id1 (hws[i := hw_thread1]))
     else hws)"
  by pat_completeness auto
termination
  by (relation "measure (\<lambda>(d, n, i, p, s, hws). n - i)") auto

declare sub_id_threads.simps [simp del]

definition set_sub_ids :: "kmp_topology_t \<Rightarrow> kmp_topology_t" where
  "set_sub_ids tp =
    tp\<lparr>hw_threads :=
         sub_id_threads (depth tp) (num_hw_threads tp) 0
           (replicate KMP_HW_LAST (-1)) (replicate KMP_HW_LAST (-1)) (hw_threads tp)\<rparr>"

subsection \<open>Globals and the last-level cache\<close>

text \<open>
  \<^verbatim>\<open>_set_globals\<close>, for a build without \<^verbatim>\<open>KMP_GROUP_AFFINITY\<close> and without
  \<^verbatim>\<open>KMP_DFLT_NTH_CORES\<close>.  The member \<^verbatim>\<open>calculate_ratio\<close> is declared in a header
  that is not part of the sources; it is the parameter \<open>calculate_ratio\<close> here.
\<close>

definition set_globals ::
  "(kmp_topology_t \<Rightarrow> int \<Rightarrow> int \<Rightarrow> int) \<Rightarrow> kmp_topology_t \<Rightarrow> kmp_globals \<Rightarrow> error + kmp_globals" where
  "set_globals calculate_ratio tp g =
    (let package_level = get_level tp KMP_HW_SOCKET;
         core_level = get_level tp KMP_HW_CORE;
         thread_level = get_level tp KMP_HW_THREAD
     in if core_level = -1 then Inl AssertFailure
        else if thread_level = -1 then Inl AssertFailure
        else
          let g1 = g\<lparr>kmp_nThreadsPerCore := calculate_ratio tp thread_level core_level\<rparr>;
              g2 = (if package_level \<noteq> -1
                    then g1\<lparr>nCoresPerPkg := calculate_ratio tp core_level package_level,
                             nPackages := get_count tp package_level\<rparr>
                    else g1\<lparr>nCoresPerPkg := get_count tp core_level, nPackages := 1\<rparr>)
          in Inr (g2\<lparr>kmp_ncores := get_count tp core_level\<rparr>))"

text \<open>
  \<^verbatim>\<open>_set_last_level_cache\<close>: the choice among the cache layers, the fallback to
  socket or core, and the final assertion.
\<close>

definition llc_from_caches :: "kmp_globals \<Rightarrow> kmp_topology_t \<Rightarrow> kmp_topology_t" where
  "llc_from_caches g tp =
    (if get_equivalent_type tp KMP_HW_L3 \<noteq> KMP_HW_UNKNOWN
     then set_equivalent_type KMP_HW_LLC KMP_HW_L3 tp
     else if get_equivalent_type tp KMP_HW_L2 \<noteq> KMP_HW_UNKNOWN
     then set_equivalent_type KMP_HW_LLC KMP_HW_L2 tp
     else if mic3 g then
       (if get_equivalent_type tp KMP_HW_L2 \<noteq> KMP_HW_UNKNOWN
        then set_equivalent_type KMP_HW_LLC KMP_HW_L2 tp
        else if get_equivalent_type tp KMP_HW_TILE \<noteq> KMP_HW_UNKNOWN
        then set_equivalent_type KMP_HW_LLC KMP_HW_TILE tp
        else set_equivalent_type KMP_HW_LLC KMP_HW_L1 tp)
     else if get_equivalent_type tp KMP_HW_L1 \<noteq> KMP_HW_UNKNOWN
     then set_equivalent_type KMP_HW_LLC KMP_HW_L1 tp
     else tp)"

definition llc_fallback :: "kmp_topology_t \<Rightarrow> kmp_topology_t" where
  "llc_fallback tp =
    (if get_equivalent_type tp KMP_HW_LLC = KMP_HW_UNKNOWN then
       (if get_equivalent_type tp KMP_HW_SOCKET \<noteq> KMP_HW_UNKNOWN
        then set_equivalent_type KMP_HW_LLC KMP_HW_SOCKET tp
        else if get_equivalent_type tp KMP_HW_CORE \<noteq> KMP_HW_UNKNOWN
        then set_equivalent_type KMP_HW_LLC KMP_HW_CORE tp
        else tp)
     else tp)"

definition set_last_level_cache :: "kmp_globals \<Rightarrow> kmp_topology_t \<Rightarrow> error + kmp_topology_t" where
  "set_last_level_cache g tp =
    (if get_equivalent_type (llc_fallback (llc_from_caches g tp)) KMP_HW_LLC = KMP_HW_UNKNOWN
     then Inl AssertFailure
     else Inr (llc_fallback (llc_from_caches g tp)))"

subsection \<open>Canonicalization\<close>

text \<open>The checks at the end of \<^verbatim>\<open>canonicalize\<close>.\<close>

definition post_canonicalization_ok :: "kmp_topology_t \<Rightarrow> bool" where
  "post_canonicalization_ok tp =
    (depth tp > 0 \<and>
     list_all (\<lambda>level. count tp ! level > 0 \<and> ratio tp ! level > 0 \<and>
                 valid_hw_type (types tp ! level) \<and>
                 equivalent tp (types tp ! level) = types tp ! level)
       [0..<depth tp])"

text \<open>The equivalence of L2 and tile that \<^verbatim>\<open>canonicalize\<close> adds on \<^verbatim>\<open>mic3\<close>.\<close>

definition mic_tile_equivalence :: "kmp_globals \<Rightarrow> kmp_topology_t \<Rightarrow> kmp_topology_t" where
  "mic_tile_equivalence g tp =
    (if mic3 g then
       (if get_level tp KMP_HW_L2 \<noteq> -1
        then set_equivalent_type KMP_HW_TILE KMP_HW_L2 tp
        else if get_level tp KMP_HW_TILE \<noteq> -1
        then set_equivalent_type KMP_HW_L2 KMP_HW_TILE tp
        else tp)
     else tp)"

text \<open>
  \<^verbatim>\<open>kmp_topology_t::canonicalize()\<close>, for a build without
  \<^verbatim>\<open>KMP_GROUP_AFFINITY\<close> (no insertion of Windows processor groups).  The state is
  the topology together with the globals.
\<close>

definition canonicalize ::
  "(kmp_topology_t \<Rightarrow> int \<Rightarrow> int \<Rightarrow> int) \<Rightarrow> kmp_topology_t \<times> kmp_globals \<Rightarrow>
   error + (kmp_topology_t \<times> kmp_globals)" where
  "canonicalize calculate_ratio s =
    bind_err (remove_radix1_layers (fst s)) (\<lambda>tp1.
    bind_err (gather_enumeration_information tp1) (\<lambda>tp2.
    bind_err (set_globals calculate_ratio (set_sub_ids (discover_uniformity tp2)) (snd s)) (\<lambda>g1.
    bind_err (set_last_level_cache g1 (set_sub_ids (discover_uniformity tp2))) (\<lambda>tp5.
      if post_canonicalization_ok (mic_tile_equivalence g1 tp5)
      then Inr (mic_tile_equivalence g1 tp5, g1)
      else Inl AssertFailure))))"

text \<open>
  \<^verbatim>\<open>canonicalize(npackages, ncores_per_pkg, nthreads_per_core, ncores)\<close>: the
  explicit packages x cores x threads topology.
\<close>

definition explicit_topology ::
  "int \<Rightarrow> int \<Rightarrow> int \<Rightarrow> int \<Rightarrow> kmp_topology_t \<times> kmp_globals \<Rightarrow> kmp_topology_t" where
  "explicit_topology npackages ncores_per_pkg nthreads_per_core ncores s =
    (let tp = fst s;
         tp1 = tp\<lparr>depth := 3, equivalent := (\<lambda>i. KMP_HW_UNKNOWN)\<rparr>;
         tp2 = tp1\<lparr>count := fold (\<lambda>level c. c[level := 0]) [0..<depth tp1] (count tp1),
                   ratio := fold (\<lambda>level r. r[level := 0]) [0..<depth tp1] (ratio tp1)\<rparr>
     in tp2\<lparr>count := (count tp2)[0 := npackages, 1 := ncores, 2 := kmp_xproc (snd s)],
            ratio := (ratio tp2)[0 := npackages, 1 := ncores_per_pkg, 2 := nthreads_per_core],
            equivalent := (equivalent tp2)(KMP_HW_SOCKET := KMP_HW_SOCKET,
               KMP_HW_CORE := KMP_HW_CORE, KMP_HW_THREAD := KMP_HW_THREAD),
            types := (types tp2)[0 := KMP_HW_SOCKET, 1 := KMP_HW_CORE, 2 := KMP_HW_THREAD]\<rparr>)"

definition canonicalize_explicit ::
  "int \<Rightarrow> int \<Rightarrow> int \<Rightarrow> int \<Rightarrow> kmp_topology_t \<times> kmp_globals \<Rightarrow> kmp_topology_t" where
  "canonicalize_explicit npackages ncores_per_pkg nthreads_per_core ncores s =
    discover_uniformity (explicit_topology npackages ncores_per_pkg nthreads_per_core ncores s)"

subsection \<open>Restricting the topology to a mask\<close>

text \<open>The compaction loop of \<^verbatim>\<open>restrict_to_mask\<close>, from index \<open>i\<close> on.\<close>

function restrict_loop ::
  "kmp_affin_mask_t \<Rightarrow> nat \<Rightarrow> nat \<Rightarrow> nat \<Rightarrow> kmp_hw_thread_t list \<times> kmp_affin_mask_t \<times> int \<Rightarrow>
   nat \<times> kmp_hw_thread_t list \<times> kmp_affin_mask_t \<times> int" where
  "restrict_loop msk n i new_index (hws, full, avail) =
    (if i < n then
       if KMP_CPU_ISSET (os_id (hws ! i)) msk
       then restrict_loop msk n (Suc i) (Suc new_index)
              ((if i \<noteq> new_index then hws[new_index := hws ! i] else hws), full, avail)
       else restrict_loop msk n (Suc i) new_index
              (hws, KMP_CPU_CLR (os_id (hws ! i)) full, avail - 1)
     else (new_index, hws, full, avail))"
  by pat_completeness auto
termination
  by (relation "measure (\<lambda>(msk, n, i, k, s). n - i)") auto

declare restrict_loop.simps [simp del]

text \<open>
  \<^verbatim>\<open>kmp_topology_t::restrict_to_mask\<close> (build for a system other than Windows): the
  result is the returned flag and the new topology and globals.
\<close>

definition restrict_to_mask ::
  "(kmp_topology_t \<Rightarrow> int \<Rightarrow> int \<Rightarrow> int) \<Rightarrow> kmp_affin_mask_t \<Rightarrow> kmp_topology_t \<times> kmp_globals \<Rightarrow>
   error + (bool \<times> kmp_topology_t \<times> kmp_globals)" where
  "restrict_to_mask calculate_ratio msk s =
    (let tp = fst s; g = snd s;
         r = restrict_loop msk (num_hw_threads tp) 0 0
               (hw_threads tp, kmp_affin_fullMask g, kmp_avail_proc g);
         new_index = fst r;
         affected = (num_hw_threads tp \<noteq> new_index);
         tp1 = tp\<lparr>hw_threads := fst (snd r), num_hw_threads := new_index\<rparr>;
         g1 = g\<lparr>kmp_affin_fullMask := fst (snd (snd r)), kmp_avail_proc := snd (snd (snd r))\<rparr>
     in if affected then
          bind_err (gather_enumeration_information tp1) (\<lambda>tp2.
          bind_err (set_globals calculate_ratio (discover_uniformity tp2) g1) (\<lambda>g2.
          bind_err (set_last_level_cache g2 (discover_uniformity tp2)) (\<lambda>tp4.
            Inr (affected, tp4, g2\<lparr>kmp_affin_origMask := kmp_affin_fullMask g2\<rparr>))))
        else Inr (affected, tp1, g1))"

text \<open>
  A machine with two cores, the first with two threads and the second with one, before
  canonicalization.
\<close>

definition ex_calculate_ratio :: "kmp_topology_t \<Rightarrow> int \<Rightarrow> int \<Rightarrow> int" where
  "ex_calculate_ratio tp level1 level2 =
     fold (\<lambda>l r. r * ratio tp ! l) [nat (level2 + 1)..<nat (level1 + 1)] 1"

definition ex_21_topology :: kmp_topology_t where
  "ex_21_topology =
     \<lparr>depth = 2, types = [KMP_HW_CORE, KMP_HW_THREAD] @ replicate 10 KMP_HW_UNKNOWN,
      ratio = replicate 12 0, count = replicate 12 0, num_core_efficiencies = 0,
      num_core_types = 0,
      core_types = [KMP_HW_CORE_TYPE_UNKNOWN, KMP_HW_CORE_TYPE_UNKNOWN, KMP_HW_CORE_TYPE_UNKNOWN],
      equivalent = (\<lambda>t. if t \<in> {KMP_HW_CORE, KMP_HW_THREAD} then t else KMP_HW_UNKNOWN),
      num_hw_threads = 3,
      hw_threads = [ex_die_thread 0 [0, 0], ex_die_thread 1 [0, 1], ex_die_thread 2 [1, 0]],
      uniform = False, compact = 0, hybrid = False\<rparr>"

definition ex_globals :: kmp_globals where
  "ex_globals =
     \<lparr>nCoresPerPkg = 0, nPackages = 0, kmp_nThreadsPerCore = 0, kmp_ncores = 0,
      kmp_avail_proc = 3, kmp_xproc = 3, kmp_affin_fullMask = {0, 1, 2},
      kmp_affin_origMask = {0, 1, 2}, mic3 = False, affinity_capable = True,
      kmp_env_consistency_check = False\<rparr>"

text \<open>The product of \<open>ratio[level]\<close> over the levels in use.\<close>

definition ratio_product :: "kmp_topology_t \<Rightarrow> int" where
  "ratio_product tp = prod_list (take (depth tp) (ratio tp))"

text \<open>Every partial product of the ratios is a value of a 32-bit \<^verbatim>\<open>int\<close>.\<close>

definition products_fit :: "kmp_topology_t \<Rightarrow> bool" where
  "products_fit tp =
    list_all (\<lambda>k. - (2 ^ 31) \<le> prod_list (take k (ratio tp)) \<and>
                   prod_list (take k (ratio tp)) < 2 ^ 31) [0..<Suc (depth tp)]"

text \<open>The array of hardware threads holds the threads in use.\<close>

definition threads_allocated :: "kmp_topology_t \<Rightarrow> bool" where
  "threads_allocated tp = (num_hw_threads tp \<le> length (hw_threads tp))"

text \<open>Every hardware thread in use has its OS id in the mask.\<close>

definition all_in_mask :: "kmp_affin_mask_t \<Rightarrow> kmp_topology_t \<Rightarrow> bool" where
  "all_in_mask msk tp =
    list_all (\<lambda>i. KMP_CPU_ISSET (os_id (hw_threads tp ! i)) msk) [0..<num_hw_threads tp]"

text \<open>The enumeration data of a topology, for stating examples.\<close>

definition enumeration_of :: "kmp_topology_t \<Rightarrow> nat \<times> int list \<times> int list \<times> bool" where
  "enumeration_of tp = (depth tp, ratio tp, count tp, uniform tp)"

text \<open>The canonical form of that machine, and the result of taking OS processor 1 away.\<close>

definition ex_21_canonical :: "kmp_topology_t \<times> kmp_globals" where
  "ex_21_canonical = projr (canonicalize ex_calculate_ratio (ex_21_topology, ex_globals))"

definition ex_21_restricted :: "bool \<times> kmp_topology_t \<times> kmp_globals" where
  "ex_21_restricted = projr (restrict_to_mask ex_calculate_ratio {0, 2} ex_21_canonical)"

section \<open>The entry points for single bits of a mask\<close>

text \<open>
  \<^verbatim>\<open>__kmp_aux_get_affinity_max_proc\<close>, for a build without
  \<^verbatim>\<open>KMP_GROUP_AFFINITY\<close>.
\<close>

definition kmp_aux_get_affinity_max_proc :: "kmp_globals \<Rightarrow> int" where
  "kmp_aux_get_affinity_max_proc g = (if \<not> affinity_capable g then 0 else kmp_xproc g)"

text \<open>
  The three entry points take the mask through a pointer to a pointer; \<open>None\<close> stands
  for a null pointer at either level.  The result is the returned code together with
  the mask behind the pointer.  The trace output of debug builds is left out.
\<close>

definition kmp_aux_set_affinity_mask_proc ::
  "kmp_globals \<Rightarrow> int \<Rightarrow> kmp_affin_mask_t option \<Rightarrow> error + (int \<times> kmp_affin_mask_t option)" where
  "kmp_aux_set_affinity_mask_proc g proc msk =
    (if \<not> affinity_capable g then Inr (-1, msk)
     else if kmp_env_consistency_check g \<and> msk = None then Inl FatalError
     else if proc < 0 \<or> proc \<ge> kmp_aux_get_affinity_max_proc g then Inr (-1, msk)
     else if \<not> KMP_CPU_ISSET proc (kmp_affin_fullMask g) then Inr (-2, msk)
     else (case msk of
             None \<Rightarrow> Inl NullDereference
           | Some m \<Rightarrow> Inr (0, Some (KMP_CPU_SET proc m))))"

definition kmp_aux_unset_affinity_mask_proc ::
  "kmp_globals \<Rightarrow> int \<Rightarrow> kmp_affin_mask_t option \<Rightarrow> error + (int \<times> kmp_affin_mask_t option)" where
  "kmp_aux_unset_affinity_mask_proc g proc msk =
    (if \<not> affinity_capable g then Inr (-1, msk)
     else if kmp_env_consistency_check g \<and> msk = None then Inl FatalError
     else if proc < 0 \<or> proc \<ge> kmp_aux_get_affinity_max_proc g then Inr (-1, msk)
     else if \<not> KMP_CPU_ISSET proc (kmp_affin_fullMask g) then Inr (-2, msk)
     else (case msk of
             None \<Rightarrow> Inl NullDereference
           | Some m \<Rightarrow> Inr (0, Some (KMP_CPU_CLR proc m))))"

definition kmp_aux_get_affinity_mask_proc ::
  "kmp_globals \<Rightarrow> int \<Rightarrow> kmp_affin_mask_t option \<Rightarrow> error + (int \<times> kmp_affin_mask_t option)" where
  "kmp_aux_get_affinity_mask_proc g proc msk =
    (if \<not> affinity_capable g then Inr (-1, msk)
     else if kmp_env_consistency_check g \<and> msk = None then Inl FatalError
     else if proc < 0 \<or> proc \<ge> kmp_aux_get_affinity_max_proc g then Inr (-1, msk)
     else if \<not> KMP_CPU_ISSET proc (kmp_affin_fullMask g) then Inr (0, msk)
     else (case msk of
             None \<Rightarrow> Inl NullDereference
           | Some m \<Rightarrow> Inr ((if KMP_CPU_ISSET proc m then 1 else 0), msk)))"

text \<open>Four processors of which the process may use the first two.\<close>

definition ex_aux_globals :: kmp_globals where
  "ex_aux_globals =
     \<lparr>nCoresPerPkg = 4, nPackages = 1, kmp_nThreadsPerCore = 1, kmp_ncores = 4,
      kmp_avail_proc = 2, kmp_xproc = 4, kmp_affin_fullMask = {0, 1},
      kmp_affin_origMask = {0, 1}, mic3 = False, affinity_capable = True,
      kmp_env_consistency_check = True\<rparr>"

section \<open>Balanced affinity on a uniform topology\<close>

text \<open>
  The affinity settings \<^verbatim>\<open>kmp_affinity_t\<close>, as far as the modelled functions read
  them: the type, the granularity, the flags \<open>verbose\<close> and \<open>warnings\<close>, and the table of
  masks indexed by OS id with its size.
\<close>

datatype affinity_type =
    affinity_none
  | affinity_explicit
  | affinity_logical
  | affinity_physical
  | affinity_scatter
  | affinity_compact
  | affinity_balanced
  | affinity_disabled

record kmp_affinity_t =
  aff_type :: affinity_type
  gran :: kmp_hw_t
  flags_verbose :: bool
  flags_warnings :: bool
  num_os_id_masks :: int
  os_id_masks :: "int \<Rightarrow> kmp_affin_mask_t"

text \<open>
  Modelled from the spec: the accessor \<^verbatim>\<open>at\<close> is declared in a header that is not
  part of the sources; it gives the record at an index of the dense array of hardware
  threads.  An index outside the array has no defined result in C++.
\<close>

definition topology_at :: "kmp_topology_t \<Rightarrow> int \<Rightarrow> error + kmp_hw_thread_t" where
  "topology_at tp index =
    (if 0 \<le> index \<and> index < int (num_hw_threads tp)
     then Inr (hw_threads tp ! nat index) else Inl OutOfBounds)"

text \<open>The \<^verbatim>\<open>switch\<close> on the granularity at the start of \<^verbatim>\<open>__kmp_balanced_affinity\<close>.\<close>

definition fine_gran :: "kmp_globals \<Rightarrow> kmp_affinity_t \<Rightarrow> bool" where
  "fine_gran g aff =
    (case gran aff of
       KMP_HW_THREAD \<Rightarrow> True
     | KMP_HW_CORE \<Rightarrow> \<not> kmp_nThreadsPerCore g > 1
     | KMP_HW_SOCKET \<Rightarrow> \<not> nCoresPerPkg g > 1
     | _ \<Rightarrow> False)"

text \<open>
  The pair \<open>(__kmp_nth_per_core, ncores)\<close> of the uniform branch.  C division of
  \<^verbatim>\<open>int\<close> truncates, which is \<open>sdiv\<close> and \<open>smod\<close>.
\<close>

definition balanced_dims :: "kmp_globals \<Rightarrow> int \<times> int" where
  "balanced_dims g =
    (if nPackages g > 1 \<and> kmp_avail_proc g sdiv kmp_ncores g \<le> 1
     then (kmp_avail_proc g sdiv nPackages g, nPackages g)
     else (kmp_avail_proc g sdiv kmp_ncores g, kmp_ncores g))"

text \<open>The loop that sets the bits of all hardware threads of a core.\<close>

fun set_core_bits ::
  "kmp_topology_t \<Rightarrow> int \<Rightarrow> int list \<Rightarrow> kmp_affin_mask_t \<Rightarrow> error + kmp_affin_mask_t" where
  "set_core_bits tp base [] msk = Inr msk"
| "set_core_bits tp base (i # is) msk =
    (case topology_at tp (base + i) of
       Inl e \<Rightarrow> Inl e
     | Inr hw_thread \<Rightarrow> set_core_bits tp base is (KMP_CPU_SET (os_id hw_thread) msk))"

text \<open>The mask for a core id and a thread id, by granularity.\<close>

definition balanced_mask ::
  "bool \<Rightarrow> kmp_topology_t \<Rightarrow> int \<Rightarrow> int \<Rightarrow> int \<Rightarrow> error + kmp_affin_mask_t" where
  "balanced_mask fine tp nth_per_core coreID threadID =
    (if fine then
       (case topology_at tp (coreID * nth_per_core + threadID) of
          Inl e \<Rightarrow> Inl e
        | Inr hw_thread \<Rightarrow> Inr (KMP_CPU_SET (os_id hw_thread) {}))
     else set_core_bits tp (coreID * nth_per_core) (map int [0..<nat nth_per_core]) {})"

text \<open>
  The uniform branch of \<^verbatim>\<open>__kmp_balanced_affinity\<close>: the new contents of the
  thread's mask, which is then handed to \<^verbatim>\<open>__kmp_set_system_affinity\<close>.
\<close>

definition balanced_uniform ::
  "kmp_globals \<Rightarrow> kmp_affinity_t \<Rightarrow> kmp_topology_t \<Rightarrow> int \<Rightarrow> int \<Rightarrow> error + kmp_affin_mask_t" where
  "balanced_uniform g aff tp tid nthreads =
    (if kmp_ncores g = 0 then Inl DivisionByZero
     else
       let nth_per_core = fst (balanced_dims g);
           ncores = snd (balanced_dims g)
       in if ncores = 0 then Inl DivisionByZero
          else
            let chunk = nthreads sdiv ncores;
                big_cores = nthreads smod ncores;
                big_nth = (chunk + 1) * big_cores
            in if tid < big_nth then
                 (if chunk + 1 = 0 \<or> nth_per_core = 0 then Inl DivisionByZero
                  else balanced_mask (fine_gran g aff) tp nth_per_core
                         (tid sdiv (chunk + 1))
                         ((tid smod (chunk + 1)) smod nth_per_core))
               else
                 (if chunk = 0 \<or> nth_per_core = 0 then Inl DivisionByZero
                  else balanced_mask (fine_gran g aff) tp nth_per_core
                         ((tid - big_cores) sdiv chunk)
                         (((tid - big_cores) smod chunk) smod nth_per_core)))"

text \<open>
  \<^verbatim>\<open>__kmp_balanced_affinity\<close>: nothing happens for a hidden helper thread, whose
  mask stays as it is; the branch for a topology that is not uniform is the parameter
  \<open>nonuniform\<close>.
\<close>

definition kmp_balanced_affinity ::
  "(kmp_affin_mask_t \<Rightarrow> error + kmp_affin_mask_t) \<Rightarrow> bool \<Rightarrow> kmp_globals \<Rightarrow> kmp_affinity_t \<Rightarrow>
   kmp_topology_t \<Rightarrow> int \<Rightarrow> int \<Rightarrow> kmp_affin_mask_t \<Rightarrow> error + kmp_affin_mask_t" where
  "kmp_balanced_affinity nonuniform hidden_helper g aff tp tid nthreads th_affin_mask =
    (if hidden_helper then Inr th_affin_mask
     else if uniform tp then balanced_uniform g aff tp tid nthreads
     else nonuniform th_affin_mask)"

text \<open>
  The assignment in the words of the specification, with \<open>chunk = nthreads / ncores\<close>
  and \<open>big = nthreads % ncores\<close>.
\<close>

definition spec_balanced_core :: "int \<Rightarrow> int \<Rightarrow> int \<Rightarrow> int" where
  "spec_balanced_core nthreads ncores tid =
    (let chunk = nthreads div ncores; big = nthreads mod ncores
     in if tid < big * (chunk + 1) then tid div (chunk + 1) else (tid - big) div chunk)"

definition spec_balanced_slot :: "int \<Rightarrow> int \<Rightarrow> int \<Rightarrow> int \<Rightarrow> int" where
  "spec_balanced_slot nthreads ncores nth_per_core tid =
    (let chunk = nthreads div ncores; big = nthreads mod ncores
     in if tid < big * (chunk + 1) then (tid mod (chunk + 1)) mod nth_per_core
        else ((tid - big) mod chunk) mod nth_per_core)"

text \<open>A uniform machine of three cores with two threads each; OS ids 10, 11, 20, 21, 30, 31.\<close>

definition ex_balanced_topology :: kmp_topology_t where
  "ex_balanced_topology =
     \<lparr>depth = 2, types = [KMP_HW_CORE, KMP_HW_THREAD] @ replicate 10 KMP_HW_UNKNOWN,
      ratio = [3, 2] @ replicate 10 0, count = [3, 6] @ replicate 10 0,
      num_core_efficiencies = 0, num_core_types = 0,
      core_types = [KMP_HW_CORE_TYPE_UNKNOWN, KMP_HW_CORE_TYPE_UNKNOWN, KMP_HW_CORE_TYPE_UNKNOWN],
      equivalent = (\<lambda>t. if t \<in> {KMP_HW_CORE, KMP_HW_THREAD} then t else KMP_HW_UNKNOWN),
      num_hw_threads = 6,
      hw_threads = [ex_die_thread 10 [0, 0], ex_die_thread 11 [0, 1], ex_die_thread 20 [1, 0],
                    ex_die_thread 21 [1, 1], ex_die_thread 30 [2, 0], ex_die_thread 31 [2, 1]],
      uniform = True, compact = 0, hybrid = False\<rparr>"

definition ex_balanced_globals :: kmp_globals where
  "ex_balanced_globals =
     \<lparr>nCoresPerPkg = 3, nPackages = 1, kmp_nThreadsPerCore = 2, kmp_ncores = 3,
      kmp_avail_proc = 6, kmp_xproc = 6, kmp_affin_fullMask = {10, 11, 20, 21, 30, 31},
      kmp_affin_origMask = {10, 11, 20, 21, 30, 31}, mic3 = False, affinity_capable = True,
      kmp_env_consistency_check = False\<rparr>"

definition ex_affinity :: "kmp_hw_t \<Rightarrow> kmp_affinity_t" where
  "ex_affinity gr =
     \<lparr>aff_type = affinity_balanced, gran = gr, flags_verbose = False, flags_warnings = True,
      num_os_id_masks = 32, os_id_masks = (\<lambda>i. {i})\<rparr>"

text \<open>
  A uniform machine of two packages with three cores each and one thread per core; OS ids
  10, 11, 12 in the first package and 20, 21, 22 in the second.
\<close>

definition ex_package_topology :: kmp_topology_t where
  "ex_package_topology =
     \<lparr>depth = 3, types = [KMP_HW_SOCKET, KMP_HW_CORE, KMP_HW_THREAD] @ replicate 9 KMP_HW_UNKNOWN,
      ratio = [2, 3, 1] @ replicate 9 0, count = [2, 6, 6] @ replicate 9 0,
      num_core_efficiencies = 0, num_core_types = 0,
      core_types = [KMP_HW_CORE_TYPE_UNKNOWN, KMP_HW_CORE_TYPE_UNKNOWN, KMP_HW_CORE_TYPE_UNKNOWN],
      equivalent = (\<lambda>t. if t \<in> {KMP_HW_SOCKET, KMP_HW_CORE, KMP_HW_THREAD} then t
                         else KMP_HW_UNKNOWN),
      num_hw_threads = 6,
      hw_threads = [ex_die_thread 10 [0, 0, 0], ex_die_thread 11 [0, 1, 0],
                    ex_die_thread 12 [0, 2, 0], ex_die_thread 20 [1, 0, 0],
                    ex_die_thread 21 [1, 1, 0], ex_die_thread 22 [1, 2, 0]],
      uniform = True, compact = 0, hybrid = False\<rparr>"

definition ex_package_globals :: kmp_globals where
  "ex_package_globals =
     \<lparr>nCoresPerPkg = 3, nPackages = 2, kmp_nThreadsPerCore = 1, kmp_ncores = 6,
      kmp_avail_proc = 6, kmp_xproc = 6, kmp_affin_fullMask = {10, 11, 12, 20, 21, 22},
      kmp_affin_origMask = {10, 11, 12, 20, 21, 22}, mic3 = False, affinity_capable = True,
      kmp_env_consistency_check = False\<rparr>"

section \<open>Places with a count clause\<close>

text \<open>
  The message ids of the catalogue that the modelled functions use, and a message as an
  id with its integer arguments.
\<close>

datatype kmp_i18n_id_t =
    kmp_i18n_null
  | AffIgnoreInvalidProcID
  | AffHWSubsetAllFiltered
  | NoLeaf4Support
  | ApicNotPresent
  | InvalidCpuidInfo
  | LegacyApicIDsNotUnique
  | InconsistentCpuidInfo


















section \<open>Printing a mask\<close>

text \<open>
  Modelled from the spec: the mask operations \<^verbatim>\<open>begin\<close>, \<^verbatim>\<open>next\<close> and \<^verbatim>\<open>end\<close> are
  declared in a header that is not part of the sources.  \<open>mask_end\<close> is the value of
  \<^verbatim>\<open>end()\<close>, one past the largest id a mask can hold; \<^verbatim>\<open>begin()\<close> is the first id
  in the mask and \<^verbatim>\<open>next(previous)\<close> the first id in the mask above \<open>previous\<close>, both
  \<open>mask_end\<close> when there is none.
\<close>

function mask_scan :: "int \<Rightarrow> kmp_affin_mask_t \<Rightarrow> int \<Rightarrow> int" where
  "mask_scan mask_end msk retval =
    (if retval < mask_end \<and> \<not> KMP_CPU_ISSET retval msk
     then mask_scan mask_end msk (retval + 1) else retval)"
  by pat_completeness auto
termination
  by (relation "measure (\<lambda>(mask_end, msk, retval). nat (mask_end - retval))") auto

declare mask_scan.simps [simp del]

definition mask_begin :: "int \<Rightarrow> kmp_affin_mask_t \<Rightarrow> int" where
  "mask_begin mask_end msk = mask_scan mask_end msk 0"

definition mask_next :: "int \<Rightarrow> kmp_affin_mask_t \<Rightarrow> int \<Rightarrow> int" where
  "mask_next mask_end msk previous = mask_scan mask_end msk (previous + 1)"

text \<open>The conversion \<^verbatim>\<open>%u\<close>: the decimal digits of the value as a 32-bit unsigned.\<close>

definition digit_char :: "nat \<Rightarrow> char" where
  "digit_char d = ''0123456789'' ! d"

function print_dec :: "nat \<Rightarrow> string" where
  "print_dec n =
    (if n < 10 then [digit_char n] else print_dec (n div 10) @ [digit_char (n mod 10)])"
  by pat_completeness auto
termination
  by (relation "measure id") auto

declare print_dec.simps [simp del]

definition print_u :: "int \<Rightarrow> string" where
  "print_u v = print_dec (nat (v mod 2 ^ 32))"

text \<open>
  The loop that finds the next range: on exit \<open>[start, previous]\<close> is a range of
  contiguous ids of the mask and \<open>finish\<close> is the next id in the mask.  Nothing in the
  loop itself bounds \<open>finish\<close> by \<open>mask_end\<close>, so the model has the value \<open>None\<close> for a
  loop that does not end.
\<close>

partial_function (option) find_range ::
  "int \<Rightarrow> kmp_affin_mask_t \<Rightarrow> int \<Rightarrow> int \<Rightarrow> (int \<times> int) option" where
  "find_range mask_end msk previous finish =
    (if finish = previous + 1 \<and> finish \<noteq> mask_end
     then find_range mask_end msk finish (mask_next mask_end msk finish)
     else Some (previous, finish))"

declare find_range.simps [code]

text \<open>
  Modelled from the spec: \<^verbatim>\<open>__kmp_str_buf_print\<close> belongs to the string library of the
  runtime, which is not part of the sources; it appends the formatted text to the buffer,
  which grows as needed.
\<close>

definition kmp_str_buf_print :: "string \<Rightarrow> string \<Rightarrow> string" where
  "kmp_str_buf_print buf text = buf @ text"

text \<open>What one turn of the loop of \<^verbatim>\<open>__kmp_affinity_str_buf_mask\<close> prints.\<close>

definition str_buf_range :: "bool \<Rightarrow> int \<Rightarrow> int \<Rightarrow> string \<Rightarrow> string" where
  "str_buf_range first_range start previous buf =
    (let buf1 = (if \<not> first_range then kmp_str_buf_print buf '','' else buf)
     in if previous - start > 1
        then kmp_str_buf_print buf1 (print_u start @ ''-'' @ print_u previous)
        else
          (let buf2 = kmp_str_buf_print buf1 (print_u start)
           in if previous - start > 0
              then kmp_str_buf_print buf2 ('','' @ print_u previous) else buf2))"

partial_function (option) str_buf_mask_loop ::
  "int \<Rightarrow> kmp_affin_mask_t \<Rightarrow> bool \<Rightarrow> int \<Rightarrow> string \<Rightarrow> string option" where
  "str_buf_mask_loop mask_end msk first_range start buf =
    (case find_range mask_end msk start (mask_next mask_end msk start) of
       None \<Rightarrow> None
     | Some (previous, finish) \<Rightarrow>
         if finish = mask_end then Some (str_buf_range first_range start previous buf)
         else str_buf_mask_loop mask_end msk False finish
                (str_buf_range first_range start previous buf))"

declare str_buf_mask_loop.simps [code]

text \<open>
  \<^verbatim>\<open>__kmp_affinity_str_buf_mask\<close>, for a buffer and a mask that are present: the buffer
  is cleared first, and its final contents are the result.
\<close>

definition kmp_affinity_str_buf_mask :: "int \<Rightarrow> kmp_affin_mask_t \<Rightarrow> string option" where
  "kmp_affinity_str_buf_mask mask_end msk =
    (if mask_begin mask_end msk = mask_end then Some (kmp_str_buf_print [] ''{<empty>}'')
     else str_buf_mask_loop mask_end msk True (mask_begin mask_end msk) [])"

text \<open>
  \<^verbatim>\<open>KMP_SNPRINTF(scan, end - scan + 1, ...)\<close> followed by \<^verbatim>\<open>KMP_ADVANCE_SCAN\<close>: of
  the formatted text, the characters that fit between \<open>scan\<close> and \<open>end\<close> are stored.  The
  buffer is modelled by its contents up to \<open>scan\<close>, and \<open>cap = buf_len - 1\<close> is the
  distance from \<open>buf\<close> to \<open>end\<close>.
\<close>

definition KMP_SNPRINTF :: "nat \<Rightarrow> string \<Rightarrow> string \<Rightarrow> string" where
  "KMP_SNPRINTF cap buf text = buf @ take (cap - length buf) text"

text \<open>What one turn of the loop of \<^verbatim>\<open>__kmp_affinity_print_mask\<close> prints.\<close>

definition print_mask_range :: "nat \<Rightarrow> bool \<Rightarrow> int \<Rightarrow> int \<Rightarrow> string \<Rightarrow> string" where
  "print_mask_range cap first_range start previous buf =
    (let buf1 = (if \<not> first_range then KMP_SNPRINTF cap buf '','' else buf)
     in if previous - start > 1
        then KMP_SNPRINTF cap buf1 (print_u start @ ''-'' @ print_u previous)
        else
          (let buf2 = KMP_SNPRINTF cap buf1 (print_u start)
           in if previous - start > 0
              then KMP_SNPRINTF cap buf2 ('','' @ print_u previous) else buf2))"

partial_function (option) print_mask_loop ::
  "nat \<Rightarrow> int \<Rightarrow> kmp_affin_mask_t \<Rightarrow> bool \<Rightarrow> int \<Rightarrow> string \<Rightarrow> string option" where
  "print_mask_loop cap mask_end msk first_range start buf =
    (case find_range mask_end msk start (mask_next mask_end msk start) of
       None \<Rightarrow> None
     | Some (previous, finish) \<Rightarrow>
         if finish = mask_end then Some (print_mask_range cap first_range start previous buf)
         else if int cap - int (length (print_mask_range cap first_range start previous buf)) < 2
         then Some (print_mask_range cap first_range start previous buf)
         else print_mask_loop cap mask_end msk False finish
                (print_mask_range cap first_range start previous buf))"

declare print_mask_loop.simps [code]

text \<open>
  \<^verbatim>\<open>__kmp_affinity_print_mask\<close>, for a buffer and a mask that are present.  The two
  assertions on \<open>buf_len\<close> and on \<open>scan <= end\<close> are branches of the model.
\<close>

definition check_scan :: "nat \<Rightarrow> string \<Rightarrow> error + string" where
  "check_scan cap buf = (if length buf \<le> cap then Inr buf else Inl AssertFailure)"

definition kmp_affinity_print_mask ::
  "int \<Rightarrow> int \<Rightarrow> kmp_affin_mask_t \<Rightarrow> (error + string) option" where
  "kmp_affinity_print_mask buf_len mask_end msk =
    (if \<not> buf_len \<ge> 40 then Some (Inl AssertFailure)
     else if mask_begin mask_end msk = mask_end
     then Some (check_scan (nat (buf_len - 1)) (KMP_SNPRINTF (nat (buf_len - 1)) [] ''{<empty>}''))
     else map_option (check_scan (nat (buf_len - 1)))
            (print_mask_loop (nat (buf_len - 1)) mask_end msk True (mask_begin mask_end msk) []))"

text \<open>
  The text in the words of the specification.  The runs of a mask are its maximal ranges
  of contiguous ids, in ascending order; \<open>runs_from a b ids\<close> continues the run \<open>[a, b]\<close>
  with the ids that follow.
\<close>

fun runs_from :: "int \<Rightarrow> int \<Rightarrow> int list \<Rightarrow> (int \<times> int) list" where
  "runs_from a b [] = [(a, b)]"
| "runs_from a b (x # xs) =
    (if x = b + 1 then runs_from a x xs else (a, b) # runs_from x x xs)"

fun runs_of :: "int list \<Rightarrow> (int \<times> int) list" where
  "runs_of [] = []"
| "runs_of (x # xs) = runs_from x x xs"

definition mask_runs :: "kmp_affin_mask_t \<Rightarrow> (int \<times> int) list" where
  "mask_runs msk = runs_of (sorted_list_of_set msk)"

text \<open>
  A run of three or more ids is printed as a closed range, a run of two ids as the two
  ids with a comma, a run of one id as the id.
\<close>

definition run_text :: "int \<times> int \<Rightarrow> string" where
  "run_text r =
    (case r of (a, b) \<Rightarrow>
       if b - a \<ge> 2 then print_dec (nat a) @ ''-'' @ print_dec (nat b)
       else if b - a = 1 then print_dec (nat a) @ '','' @ print_dec (nat b)
       else print_dec (nat a))"

fun comma_separated :: "string list \<Rightarrow> string" where
  "comma_separated [] = []"
| "comma_separated [s] = s"
| "comma_separated (s # t # ts) = s @ '','' @ comma_separated (t # ts)"

definition spec_mask_text :: "kmp_affin_mask_t \<Rightarrow> string" where
  "spec_mask_text msk =
    (if msk = {} then ''{<empty>}'' else comma_separated (map run_text (mask_runs msk)))"

text \<open>
  The ids of the mask above \<open>p\<close>, in ascending order, and the value of \<^verbatim>\<open>next\<close> that
  belongs to such a list.
\<close>

definition ids_above :: "kmp_affin_mask_t \<Rightarrow> int \<Rightarrow> int list \<Rightarrow> bool" where
  "ids_above msk p xs \<longleftrightarrow> sorted_wrt (<) xs \<and> set xs = {y \<in> msk. p < y}"

definition first_or :: "int \<Rightarrow> int list \<Rightarrow> int" where
  "first_or mask_end xs = (case xs of [] \<Rightarrow> mask_end | x # _ \<Rightarrow> x)"

text \<open>The even ids up to 26 and the id 100, in a mask of 128 bits.\<close>

definition ex_print_mask :: kmp_affin_mask_t where
  "ex_print_mask = {0, 2, 4, 6, 8, 10, 12, 14, 16, 18, 20, 22, 24, 26, 100}"

definition ex_runs_mask :: kmp_affin_mask_t where
  "ex_runs_mask = {1, 2, 4, 5, 6, 7, 9}"

section \<open>Discovery from the legacy APIC ids\<close>



































section \<open>Properties of the comparator\<close>

lemma compare_ids_from_skip_tie:
  assumes "level < depth tp" "level_tie tp a b level"
  shows "compare_ids_from tp a b level = compare_ids_from tp a b (Suc level)"
  using assms
  by (subst compare_ids_from.simps) (auto simp: level_tie_def eff_compared_def)

lemma compare_ids_from_skip_ties:
  assumes "j \<le> k" "k \<le> depth tp" "\<forall>l. j \<le> l \<and> l < k \<longrightarrow> level_tie tp a b l"
  shows "compare_ids_from tp a b j = compare_ids_from tp a b k"
  using assms
proof (induction "k - j" arbitrary: j)
  case 0
  then show ?case by simp
next
  case (Suc n)
  then have "j < depth tp" "level_tie tp a b j" by auto
  then have "compare_ids_from tp a b j = compare_ids_from tp a b (Suc j)"
    by (rule compare_ids_from_skip_tie)
  also have "\<dots> = compare_ids_from tp a b k"
    using Suc by (intro Suc.hyps(1)) auto
  finally show ?case .
qed

text \<open>
  Claim C3.  Let \<open>k\<close> be a level such that the two threads tie at every level above it.
  If \<open>k\<close> is the depth (they tie everywhere), the result is the ascending order of the
  OS ids.  If they do not tie at level \<open>k\<close>, that level decides: where efficiencies are
  compared (hybrid CPU, core level) and differ, the thread of higher efficiency comes
  first; otherwise a thread whose id is \<open>UNKNOWN_ID\<close> comes after the other one, and two
  numeric ids are in ascending order.
\<close>

theorem compare_ids_lexicographic:
  assumes "k \<le> depth tp" and "ties_below tp a b k"
  shows "(k = depth tp \<longrightarrow>
            compare_ids tp a b =
              (if os_id a < os_id b then -1 else if os_id a > os_id b then 1 else 0)) \<and>
         (k < depth tp \<and> \<not> level_tie tp a b k \<longrightarrow>
            compare_ids tp a b =
              (if eff_compared tp a b k \<and> get_core_eff (attrs a) \<noteq> get_core_eff (attrs b)
               then (if get_core_eff (attrs a) > get_core_eff (attrs b) then -1 else 1)
               else if ids a ! k = UNKNOWN_ID then 1
               else if ids b ! k = UNKNOWN_ID then -1
               else if ids a ! k < ids b ! k then -1 else 1))"
proof -
  have ties: "\<forall>l. 0 \<le> l \<and> l < k \<longrightarrow> level_tie tp a b l"
    using assms(2) by (simp add: ties_below_def list_all_iff)
  have start: "compare_ids tp a b = compare_ids_from tp a b k"
    unfolding compare_ids_def
    by (rule compare_ids_from_skip_ties) (use assms(1) ties in auto)
  show ?thesis
  proof (intro conjI impI)
    assume "k = depth tp"
    then show "compare_ids tp a b =
        (if os_id a < os_id b then -1 else if os_id a > os_id b then 1 else 0)"
      unfolding start by (subst compare_ids_from.simps) simp
  next
    assume "k < depth tp \<and> \<not> level_tie tp a b k"
    then show "compare_ids tp a b =
        (if eff_compared tp a b k \<and> get_core_eff (attrs a) \<noteq> get_core_eff (attrs b)
         then (if get_core_eff (attrs a) > get_core_eff (attrs b) then -1 else 1)
         else if ids a ! k = UNKNOWN_ID then 1
         else if ids b ! k = UNKNOWN_ID then -1
         else if ids a ! k < ids b ! k then -1 else 1)"
      unfolding start
      by (subst compare_ids_from.simps) (auto simp: level_tie_def eff_compared_def)
  qed
qed

text \<open>
  On the example machine the performance thread precedes the efficiency thread although
  its core id is the larger one, and two threads with equal ids are ordered by OS id.
\<close>

theorem compare_ids_lexicographic_witness:
  "compare_ids ex_hybrid_topology ex_p ex_e = -1 \<and>
   compare_ids ex_hybrid_topology ex_p ex_p2 = -1"
proof -
  have d: "depth ex_hybrid_topology = 3"
    by (simp add: ex_hybrid_topology_def)
  have t1: "ties_below ex_hybrid_topology ex_p ex_e 1"
    by (simp add: ties_below_def level_tie_def eff_compared_def get_type_def
        ex_hybrid_topology_def ex_p_def ex_e_def ex_thread_def)
  have n1: "\<not> level_tie ex_hybrid_topology ex_p ex_e 1"
    by (simp add: level_tie_def ex_p_def ex_e_def ex_thread_def)
  have t3: "ties_below ex_hybrid_topology ex_p ex_p2 3"
    by (simp add: ties_below_def level_tie_def eff_compared_def get_type_def
        ex_hybrid_topology_def ex_p_def ex_p2_def ex_thread_def ex_attr_def
        get_core_eff_def upt_rec)
  have a: "compare_ids ex_hybrid_topology ex_p ex_e = -1"
    using compare_ids_lexicographic [of 1 ex_hybrid_topology ex_p ex_e] d t1 n1
    by (simp add: eff_compared_def get_type_def is_core_eff_valid_def get_core_eff_def
        UNKNOWN_CORE_EFF_def ex_hybrid_topology_def ex_p_def ex_e_def ex_thread_def
        ex_attr_def)
  have b: "compare_ids ex_hybrid_topology ex_p ex_p2 = -1"
    using compare_ids_lexicographic [of 3 ex_hybrid_topology ex_p ex_p2] d t3
    by (simp add: ex_p_def ex_p2_def ex_thread_def)
  show ?thesis using a b by simp
qed

section \<open>Properties of the removal of radix-1 layers\<close>
























section \<open>Properties of enumeration and uniformity\<close>

lemma int32_wrap_id: "- (2 ^ 31) \<le> x \<Longrightarrow> x < 2 ^ 31 \<Longrightarrow> int32_wrap x = x"
  by (simp add: int32_wrap_def)

lemma fold_ratio_product:
  assumes "k \<le> length r"
    and "\<forall>j\<le>k. - (2 ^ 31) \<le> prod_list (take j r) \<and> prod_list (take j r) < 2 ^ 31"
  shows "fold (\<lambda>level num. int32_wrap (num * r ! level)) [0..<k] 1 = prod_list (take k r)"
  using assms
proof (induction k)
  case 0
  then show ?case by simp
next
  case (Suc k)
  have k: "k < length r" using Suc.prems(1) by simp
  have ih: "fold (\<lambda>level num. int32_wrap (num * r ! level)) [0..<k] 1 = prod_list (take k r)"
    using Suc by simp
  have tk: "prod_list (take (Suc k) r) = prod_list (take k r) * r ! k"
    using k by (simp add: take_Suc_conv_app_nth)
  have "- (2 ^ 31) \<le> prod_list (take (Suc k) r) \<and> prod_list (take (Suc k) r) < 2 ^ 31"
    using Suc.prems(2) by blast
  then have "int32_wrap (prod_list (take k r) * r ! k) = prod_list (take k r) * r ! k"
    unfolding tk by (intro int32_wrap_id) simp_all
  then show ?case using ih tk by simp
qed

lemma uniform_discover_uniformity:
  assumes "depth tp \<le> length (ratio tp)" "products_fit tp"
  shows "uniform (discover_uniformity tp) = (ratio_product tp = count tp ! (depth tp - 1))"
proof -
  have all: "\<forall>k\<in>set [0..<Suc (depth tp)]. - (2 ^ 31) \<le> prod_list (take k (ratio tp)) \<and>
      prod_list (take k (ratio tp)) < 2 ^ 31"
    using assms(2) unfolding products_fit_def list_all_iff .
  have "\<forall>j\<le>depth tp. - (2 ^ 31) \<le> prod_list (take j (ratio tp)) \<and>
      prod_list (take j (ratio tp)) < 2 ^ 31"
  proof (intro allI impI)
    fix j assume "j \<le> depth tp"
    then have "j \<in> set [0..<Suc (depth tp)]" by auto
    with all show "- (2 ^ 31) \<le> prod_list (take j (ratio tp)) \<and>
      prod_list (take j (ratio tp)) < 2 ^ 31" by blast
  qed
  then have "fold (\<lambda>level num. int32_wrap (num * ratio tp ! level)) [0..<depth tp] 1 =
      prod_list (take (depth tp) (ratio tp))"
    using assms(1) by (intro fold_ratio_product) simp_all
  then show ?thesis
    by (simp add: discover_uniformity_def ratio_product_def Let_def)
qed

lemma discover_uniformity_frame:
  "depth (discover_uniformity tp) = depth tp"
  "ratio (discover_uniformity tp) = ratio tp"
  "count (discover_uniformity tp) = count tp"
  "hw_threads (discover_uniformity tp) = hw_threads tp"
  "num_hw_threads (discover_uniformity tp) = num_hw_threads tp"
  by (simp_all add: discover_uniformity_def Let_def)

lemma set_sub_ids_frame:
  "depth (set_sub_ids tp) = depth tp"
  "ratio (set_sub_ids tp) = ratio tp"
  "count (set_sub_ids tp) = count tp"
  "uniform (set_sub_ids tp) = uniform tp"
  by (simp_all add: set_sub_ids_def)

lemma set_equivalent_type_frame:
  "depth (set_equivalent_type a b tp) = depth tp"
  "ratio (set_equivalent_type a b tp) = ratio tp"
  "count (set_equivalent_type a b tp) = count tp"
  "uniform (set_equivalent_type a b tp) = uniform tp"
  "hw_threads (set_equivalent_type a b tp) = hw_threads tp"
  "num_hw_threads (set_equivalent_type a b tp) = num_hw_threads tp"
  by (simp_all add: set_equivalent_type_def)

lemma llc_from_caches_frame:
  "depth (llc_from_caches g tp) = depth tp"
  "ratio (llc_from_caches g tp) = ratio tp"
  "count (llc_from_caches g tp) = count tp"
  "uniform (llc_from_caches g tp) = uniform tp"
  "hw_threads (llc_from_caches g tp) = hw_threads tp"
  "num_hw_threads (llc_from_caches g tp) = num_hw_threads tp"
  by (simp_all add: llc_from_caches_def set_equivalent_type_frame)

lemma llc_fallback_frame:
  "depth (llc_fallback tp) = depth tp"
  "ratio (llc_fallback tp) = ratio tp"
  "count (llc_fallback tp) = count tp"
  "uniform (llc_fallback tp) = uniform tp"
  "hw_threads (llc_fallback tp) = hw_threads tp"
  "num_hw_threads (llc_fallback tp) = num_hw_threads tp"
  by (simp_all add: llc_fallback_def set_equivalent_type_frame)

lemma set_last_level_cache_frame:
  assumes "set_last_level_cache g tp = Inr tp'"
  shows "depth tp' = depth tp" "ratio tp' = ratio tp" "count tp' = count tp"
    "uniform tp' = uniform tp" "hw_threads tp' = hw_threads tp"
    "num_hw_threads tp' = num_hw_threads tp"
proof -
  have "tp' = llc_fallback (llc_from_caches g tp)"
    using assms by (simp add: set_last_level_cache_def split: if_splits)
  then show "depth tp' = depth tp" "ratio tp' = ratio tp" "count tp' = count tp"
    "uniform tp' = uniform tp" "hw_threads tp' = hw_threads tp"
    "num_hw_threads tp' = num_hw_threads tp"
    by (simp_all add: llc_fallback_frame llc_from_caches_frame)
qed

lemma mic_tile_equivalence_frame:
  "depth (mic_tile_equivalence g tp) = depth tp"
  "ratio (mic_tile_equivalence g tp) = ratio tp"
  "count (mic_tile_equivalence g tp) = count tp"
  "uniform (mic_tile_equivalence g tp) = uniform tp"
  by (simp_all add: mic_tile_equivalence_def set_equivalent_type_frame)

lemma map_sum_Inr_projr:
  "map_sum f h x = Inr y \<Longrightarrow> x = Inr (projr x) \<and> h (projr x) = y"
  by (cases x) auto

lemma bind_err_Inr:
  "bind_err m f = Inr y \<longleftrightarrow> (\<exists>x. m = Inr x \<and> f x = Inr y)"
  by (cases m) (simp_all add: bind_err_def)

lemma canonicalize_uniform:
  assumes "canonicalize cr s = Inr (tp', g')"
  shows "\<exists>tp2. depth tp' = depth tp2 \<and> ratio tp' = ratio tp2 \<and> count tp' = count tp2 \<and>
           uniform tp' = uniform (discover_uniformity tp2)"
proof -
  from assms obtain tp1 tp2 g1 tp5 where
      "set_last_level_cache g1 (set_sub_ids (discover_uniformity tp2)) = Inr tp5"
    and res: "(if post_canonicalization_ok (mic_tile_equivalence g1 tp5)
        then Inr (mic_tile_equivalence g1 tp5, g1) else Inl AssertFailure) = Inr (tp', g')"
    unfolding canonicalize_def bind_err_Inr by blast
  note fr = set_last_level_cache_frame [OF this(1)]
  have tp': "tp' = mic_tile_equivalence g1 tp5"
    using res by (auto split: if_splits)
  show ?thesis
    by (rule exI [of _ tp2])
       (simp add: tp' mic_tile_equivalence_frame fr set_sub_ids_frame discover_uniformity_frame)
qed

lemma restrict_to_mask_uniform:
  assumes "restrict_to_mask cr msk s = Inr (True, tp', g')"
  shows "\<exists>tp2. depth tp' = depth tp2 \<and> ratio tp' = ratio tp2 \<and> count tp' = count tp2 \<and>
           uniform tp' = uniform (discover_uniformity tp2)"
proof -
  from assms obtain tp2 g2 where
      llc: "set_last_level_cache g2 (discover_uniformity tp2) = Inr tp'"
    unfolding restrict_to_mask_def Let_def
    by (auto simp: bind_err_Inr split: if_splits)
  note fr = set_last_level_cache_frame [OF llc]
  show ?thesis
    by (rule exI [of _ tp2]) (simp add: fr discover_uniformity_frame)
qed


text \<open>
  Claim C7.  After \<^verbatim>\<open>canonicalize\<close>, and after a \<^verbatim>\<open>restrict_to_mask\<close> that
  removed threads, the uniform flag holds exactly when the product of the ratios of the
  levels in use equals the count of the innermost level.  The same holds for the
  canonicalization of an explicit packages, cores, threads topology.  The product is
  taken in a 32-bit \<^verbatim>\<open>int\<close>, so it is assumed to fit.
\<close>

theorem uniform_iff_ratio_product:
  "(canonicalize cr s = Inr (tp', g') \<and> depth tp' \<le> length (ratio tp') \<and> products_fit tp' \<longrightarrow>
      (uniform tp' \<longleftrightarrow> ratio_product tp' = count tp' ! (depth tp' - 1))) \<and>
   (restrict_to_mask cr msk s = Inr (True, tp', g') \<and> 0 < depth tp' \<and>
      depth tp' \<le> length (ratio tp') \<and> products_fit tp' \<longrightarrow>
      (uniform tp' \<longleftrightarrow> ratio_product tp' = count tp' ! (depth tp' - 1))) \<and>
   (depth (canonicalize_explicit npackages ncores_per_pkg nthreads_per_core ncores s)
        \<le> length (ratio (canonicalize_explicit npackages ncores_per_pkg nthreads_per_core ncores s)) \<and>
      products_fit (canonicalize_explicit npackages ncores_per_pkg nthreads_per_core ncores s) \<longrightarrow>
      (uniform (canonicalize_explicit npackages ncores_per_pkg nthreads_per_core ncores s) \<longleftrightarrow>
       ratio_product (canonicalize_explicit npackages ncores_per_pkg nthreads_per_core ncores s) =
       count (canonicalize_explicit npackages ncores_per_pkg nthreads_per_core ncores s) !
         (depth (canonicalize_explicit npackages ncores_per_pkg nthreads_per_core ncores s) - 1)))"
proof (intro conjI impI)
  assume a: "canonicalize cr s = Inr (tp', g') \<and> depth tp' \<le> length (ratio tp') \<and> products_fit tp'"
  then obtain tp2 where tp2: "depth tp' = depth tp2" "ratio tp' = ratio tp2"
      "count tp' = count tp2" "uniform tp' = uniform (discover_uniformity tp2)"
    using canonicalize_uniform by blast
  have "depth tp2 \<le> length (ratio tp2)" "products_fit tp2"
    using a tp2 by (simp_all add: products_fit_def)
  from uniform_discover_uniformity [OF this] tp2
  show "uniform tp' \<longleftrightarrow> ratio_product tp' = count tp' ! (depth tp' - 1)"
    by (simp add: ratio_product_def)
next
  assume a: "restrict_to_mask cr msk s = Inr (True, tp', g') \<and> 0 < depth tp' \<and>
      depth tp' \<le> length (ratio tp') \<and> products_fit tp'"
  then obtain tp2 where tp2: "depth tp' = depth tp2" "ratio tp' = ratio tp2"
      "count tp' = count tp2" "uniform tp' = uniform (discover_uniformity tp2)"
    using restrict_to_mask_uniform by blast
  have "depth tp2 \<le> length (ratio tp2)" "products_fit tp2"
    using a tp2 by (simp_all add: products_fit_def)
  from uniform_discover_uniformity [OF this] tp2
  show "uniform tp' \<longleftrightarrow> ratio_product tp' = count tp' ! (depth tp' - 1)"
    by (simp add: ratio_product_def)
next
  let ?tp3 = "explicit_topology npackages ncores_per_pkg nthreads_per_core ncores s"
  let ?tp = "canonicalize_explicit npackages ncores_per_pkg nthreads_per_core ncores s"
  assume a: "depth ?tp \<le> length (ratio ?tp) \<and> products_fit ?tp"
  have eq: "?tp = discover_uniformity ?tp3"
    by (simp add: canonicalize_explicit_def)
  have "depth ?tp3 \<le> length (ratio ?tp3)" "products_fit ?tp3"
    using a unfolding eq by (simp_all add: products_fit_def discover_uniformity_frame)
  from uniform_discover_uniformity [OF this]
  show "uniform ?tp \<longleftrightarrow> ratio_product ?tp = count ?tp ! (depth ?tp - 1)"
    unfolding eq by (simp add: ratio_product_def discover_uniformity_frame)
qed


text \<open>
  The machine with two cores of two and one threads is not uniform after
  canonicalization (2 * 2 = 4, but 3 threads) and uniform once OS processor 1 is taken
  away (2 * 1 = 2 threads).
\<close>

theorem uniform_iff_ratio_product_witness:
  "\<not> uniform (fst ex_21_canonical) \<and>
   ratio_product (fst ex_21_canonical) = 4 \<and>
   count (fst ex_21_canonical) ! (depth (fst ex_21_canonical) - 1) = 3 \<and>
   uniform (fst (snd ex_21_restricted)) \<and>
   ratio_product (fst (snd ex_21_restricted)) = 2 \<and>
   count (fst (snd ex_21_restricted)) ! (depth (fst (snd ex_21_restricted)) - 1) = 2 \<and>
   uniform (canonicalize_explicit 1 3 1 3 (ex_21_topology, ex_globals))"
proof -
  let ?c = "fst ex_21_canonical" and ?r = "fst (snd ex_21_restricted)"
  let ?e = "canonicalize_explicit 1 3 1 3 (ex_21_topology, ex_globals)"
  have "map_sum id (\<lambda>s. enumeration_of (fst s))
          (canonicalize ex_calculate_ratio (ex_21_topology, ex_globals)) =
        Inr (2, [2, 2] @ replicate 10 0, [2, 3] @ replicate 10 0, False)"
    by code_simp
  then have can: "canonicalize ex_calculate_ratio (ex_21_topology, ex_globals) =
      Inr (?c, snd ex_21_canonical)"
    and ce: "enumeration_of ?c = (2, [2, 2] @ replicate 10 0, [2, 3] @ replicate 10 0, False)"
    by (auto simp: ex_21_canonical_def dest!: map_sum_Inr_projr)
  let ?X = "restrict_to_mask ex_calculate_ratio {0, 2} ex_21_canonical"
  have "map_sum id (\<lambda>r. (fst r, enumeration_of (fst (snd r)))) ?X =
        Inr (True, 2, [2, 1] @ replicate 10 0, [2, 2] @ replicate 10 0, True)"
    by code_simp
  from map_sum_Inr_projr [OF this]
  have x: "?X = Inr (projr ?X)" and f: "fst (projr ?X) = True"
    and re: "enumeration_of (fst (snd (projr ?X))) =
      (2, [2, 1] @ replicate 10 0, [2, 2] @ replicate 10 0, True)"
    by simp_all
  have "projr ?X = (True, fst (snd (projr ?X)), snd (snd (projr ?X)))"
    using f by (metis prod.collapse)
  with x have "?X = Inr (True, fst (snd (projr ?X)), snd (snd (projr ?X)))"
    by simp
  then have res: "?X = Inr (True, ?r, snd (snd ex_21_restricted))"
    by (simp add: ex_21_restricted_def)
  have re: "enumeration_of ?r = (2, [2, 1] @ replicate 10 0, [2, 2] @ replicate 10 0, True)"
    using re by (simp add: ex_21_restricted_def)
  have ee: "enumeration_of ?e = (3, [1, 3, 1] @ replicate 9 0, [1, 3, 3] @ replicate 9 0, True)"
    by code_simp
  have cd: "depth ?c = 2" and cr: "ratio ?c = [2, 2] @ replicate 10 0"
    and cc: "count ?c = [2, 3] @ replicate 10 0"
    using ce by (simp_all add: enumeration_of_def)
  have rd: "depth ?r = 2" and rr: "ratio ?r = [2, 1] @ replicate 10 0"
    and rc: "count ?r = [2, 2] @ replicate 10 0"
    using re by (simp_all add: enumeration_of_def)
  have ed: "depth ?e = 3" and er: "ratio ?e = [1, 3, 1] @ replicate 9 0"
    and ec: "count ?e = [1, 3, 3] @ replicate 9 0"
    using ee by (simp_all add: enumeration_of_def)
  have c2: "products_fit ?c" and c3: "ratio_product ?c = 4"
    by (simp_all add: products_fit_def ratio_product_def cd cr upt_rec)
  have r2: "products_fit ?r" and r3: "ratio_product ?r = 2"
    by (simp_all add: products_fit_def ratio_product_def rd rr upt_rec)
  have e2: "products_fit ?e" and e3: "ratio_product ?e = 3"
    by (simp_all add: products_fit_def ratio_product_def ed er upt_rec)
  note inst = uniform_iff_ratio_product [where cr = ex_calculate_ratio
      and npackages = 1 and ncores_per_pkg = 3 and nthreads_per_core = 1 and ncores = 3]
  have a: "\<not> uniform ?c"
    using inst [where s = "(ex_21_topology, ex_globals)" and tp' = ?c
        and g' = "snd ex_21_canonical"] can c2 c3 cd cr cc
    by simp
  have b: "uniform ?r"
    using inst [where s = ex_21_canonical and tp' = ?r and msk = "{0, 2}"
        and g' = "snd (snd ex_21_restricted)"] res r2 r3 rd rr rc
    by simp
  have c: "uniform ?e"
    using inst [where s = "(ex_21_topology, ex_globals)"] e2 e3 ed er ec
    by simp
  show ?thesis using a b c c3 cc r3 rc cd rd by simp
qed

section \<open>Properties of restrict_to_mask\<close>

lemma restrict_loop_noop:
  assumes "\<forall>j. i \<le> j \<and> j < n \<longrightarrow> KMP_CPU_ISSET (os_id (hws ! j)) msk"
  shows "restrict_loop msk n i i (hws, full, avail) = (max i n, hws, full, avail)"
  using assms
proof (induction "n - i" arbitrary: i)
  case 0
  then show ?case by (subst restrict_loop.simps) (simp add: max_def)
next
  case (Suc d)
  then have lt: "i < n" and inm: "KMP_CPU_ISSET (os_id (hws ! i)) msk" by auto
  have "restrict_loop msk n i i (hws, full, avail) =
      restrict_loop msk n (Suc i) (Suc i) (hws, full, avail)"
    using lt inm by (subst restrict_loop.simps) simp
  also have "\<dots> = (max (Suc i) n, hws, full, avail)"
    using Suc by (intro Suc.hyps(1)) auto
  finally show ?case using lt by (simp add: max_def)
qed

lemma restrict_loop_in_mask:
  assumes "k \<le> i" "n \<le> length (fst s)"
    "\<forall>j<k. KMP_CPU_ISSET (os_id (fst s ! j)) msk"
  shows "\<forall>j<fst (restrict_loop msk n i k s).
           KMP_CPU_ISSET (os_id (fst (snd (restrict_loop msk n i k s)) ! j)) msk"
  using assms
proof (induction msk n i k s rule: restrict_loop.induct)
  case (1 msk n i new_index hws full avail)
  show ?case
  proof (cases "i < n")
    case False
    then show ?thesis using "1.prems"(3) by (subst (1 2) restrict_loop.simps) simp
  next
    case True
    show ?thesis
    proof (cases "KMP_CPU_ISSET (os_id (hws ! i)) msk")
      case inm: True
      let ?hws = "if i \<noteq> new_index then hws[new_index := hws ! i] else hws"
      have unf: "restrict_loop msk n i new_index (hws, full, avail) =
          restrict_loop msk n (Suc i) (Suc new_index) (?hws, full, avail)"
        using True inm by (subst restrict_loop.simps) simp
      have len: "new_index < length hws" using "1.prems"(1,2) True by simp
      have "\<forall>j<Suc new_index. KMP_CPU_ISSET (os_id (?hws ! j)) msk"
      proof (intro allI impI)
        fix j assume "j < Suc new_index"
        then consider "j < new_index" | "j = new_index" by linarith
        then show "KMP_CPU_ISSET (os_id (?hws ! j)) msk"
        proof cases
          case 1
          then show ?thesis using "1.prems"(3) by simp
        next
          case 2
          then show ?thesis using inm len by auto
        qed
      qed
      then have "\<forall>j<fst (restrict_loop msk n (Suc i) (Suc new_index) (?hws, full, avail)).
          KMP_CPU_ISSET (os_id (fst (snd (restrict_loop msk n (Suc i) (Suc new_index)
            (?hws, full, avail))) ! j)) msk"
        using "1.prems"(1,2) by (intro "1.IH"(1) [OF True inm]) simp_all
      then show ?thesis unfolding unf .
    next
      case notin: False
      have unf: "restrict_loop msk n i new_index (hws, full, avail) =
          restrict_loop msk n (Suc i) new_index
            (hws, KMP_CPU_CLR (os_id (hws ! i)) full, avail - 1)"
        using True notin by (subst restrict_loop.simps) simp
      have "\<forall>j<fst (restrict_loop msk n (Suc i) new_index
            (hws, KMP_CPU_CLR (os_id (hws ! i)) full, avail - 1)).
          KMP_CPU_ISSET (os_id (fst (snd (restrict_loop msk n (Suc i) new_index
            (hws, KMP_CPU_CLR (os_id (hws ! i)) full, avail - 1))) ! j)) msk"
        using "1.prems" by (intro "1.IH"(2) [OF True notin]) simp_all
      then show ?thesis unfolding unf .
    qed
  qed
qed

lemma gather_new_id_frame:
  "hw_threads (fst (gather_new_id t l s)) = hw_threads (fst s)"
  "num_hw_threads (fst (gather_new_id t l s)) = num_hw_threads (fst s)"
  "depth (fst (gather_new_id t l s)) = depth (fst s)"
  by (simp_all add: gather_new_id_def Let_def)

lemma gather_hybrid_frame:
  assumes "gather_hybrid t tp = Inr tp'"
  shows "hw_threads tp' = hw_threads tp \<and> num_hw_threads tp' = num_hw_threads tp \<and>
         depth tp' = depth tp"
  using assms by (auto simp: gather_hybrid_def Let_def split: if_splits)

lemma gather_layers_frame:
  assumes "gather_layers t c p l s = Inr s'"
  shows "hw_threads (fst s') = hw_threads (fst s) \<and>
         num_hw_threads (fst s') = num_hw_threads (fst s) \<and> depth (fst s') = depth (fst s)"
  using assms
proof (induction t c p l s rule: gather_layers.induct)
  case (1 t c p l s)
  show ?case
  proof (cases "l < depth (fst s)")
    case False
    then show ?thesis using "1.prems" by (subst (asm) gather_layers.simps) auto
  next
    case True
    show ?thesis
    proof (cases "ids t ! l \<noteq> p ! l")
      case False
      then have "gather_layers t c p (Suc l) s = Inr s'"
        using "1.prems" True by (subst (asm) gather_layers.simps) simp
      then show ?thesis using "1.IH" True False by simp
    next
      case new: True
      show ?thesis
      proof (cases "hybrid (fst s) \<and> c \<ge> 0 \<and> int l \<le> c")
        case False
        then have "s' = gather_new_id t l s"
          using "1.prems" True new by (subst (asm) gather_layers.simps) (auto simp: Let_def)
        then show ?thesis by (simp add: gather_new_id_frame)
      next
        case hyb: True
        then obtain tp2 where h: "gather_hybrid t (fst (gather_new_id t l s)) = Inr tp2"
          and s': "s' = (tp2, snd (gather_new_id t l s))"
          using "1.prems" True new
          by (subst (asm) gather_layers.simps) (auto simp: Let_def split: sum.splits)
        from gather_hybrid_frame [OF h] show ?thesis
          by (simp add: s' gather_new_id_frame)
      qed
    qed
  qed
qed

lemma gather_threads_frame:
  assumes "gather_threads hws n c i p s = Inr s'"
  shows "hw_threads (fst s') = hw_threads (fst s) \<and>
         num_hw_threads (fst s') = num_hw_threads (fst s) \<and> depth (fst s') = depth (fst s)"
  using assms
proof (induction hws n c i p s rule: gather_threads.induct)
  case (1 hws n c i p s)
  show ?case
  proof (cases "i < n")
    case False
    then show ?thesis using "1.prems" by (subst (asm) gather_threads.simps) auto
  next
    case True
    then obtain s1 where l: "gather_layers (hws ! i) c p 0 s = Inr s1"
      and r: "gather_threads hws n c (Suc i)
          (fold (\<lambda>layer p. p[layer := ids (hws ! i) ! layer]) [0..<depth (fst s)] p) s1 = Inr s'"
      using "1.prems" by (subst (asm) gather_threads.simps) (auto split: sum.splits)
    from "1.IH" [OF True l r] gather_layers_frame [OF l] show ?thesis by simp
  qed
qed

lemma gather_enumeration_information_frame:
  assumes "gather_enumeration_information tp = Inr tp'"
  shows "hw_threads tp' = hw_threads tp" "num_hw_threads tp' = num_hw_threads tp"
proof -
  let ?tp0 = "tp\<lparr>count := fold (\<lambda>i c. c[i := 0]) [0..<depth tp] (count tp),
                  ratio := fold (\<lambda>i r. r[i := 0]) [0..<depth tp] (ratio tp)\<rparr>"
  from assms obtain s where g: "gather_threads (hw_threads ?tp0) (num_hw_threads ?tp0)
        (get_level ?tp0 KMP_HW_CORE) 0 (replicate KMP_HW_LAST UNKNOWN_ID)
        (?tp0, replicate KMP_HW_LAST 0) = Inr s"
    and tp': "tp' = (fst s)\<lparr>ratio :=
        fold (\<lambda>layer r. if snd s ! layer > r ! layer then r[layer := snd s ! layer] else r)
          [0..<depth (fst s)] (ratio (fst s))\<rparr>"
    by (auto simp: gather_enumeration_information_def Let_def split: sum.splits)
  from gather_threads_frame [OF g]
  show "hw_threads tp' = hw_threads tp" "num_hw_threads tp' = num_hw_threads tp"
    by (simp_all add: tp')
qed

lemma restrict_to_mask_noop:
  assumes "all_in_mask msk (fst s)"
  shows "restrict_to_mask cr msk s = Inr (False, s)"
proof -
  have "\<forall>j. 0 \<le> j \<and> j < num_hw_threads (fst s) \<longrightarrow>
      KMP_CPU_ISSET (os_id (hw_threads (fst s) ! j)) msk"
    using assms by (simp add: all_in_mask_def list_all_iff)
  from restrict_loop_noop [OF this]
  have "restrict_loop msk (num_hw_threads (fst s)) 0 0
      (hw_threads (fst s), kmp_affin_fullMask (snd s), kmp_avail_proc (snd s)) =
      (num_hw_threads (fst s), hw_threads (fst s), kmp_affin_fullMask (snd s),
       kmp_avail_proc (snd s))"
    by simp
  then show ?thesis
    by (simp add: restrict_to_mask_def Let_def)
qed

lemma restrict_to_mask_all_in_mask:
  assumes "restrict_to_mask cr msk s = Inr (b, s')"
    and "num_hw_threads (fst s) \<le> length (hw_threads (fst s))"
  shows "all_in_mask msk (fst s')"
proof -
  let ?r = "restrict_loop msk (num_hw_threads (fst s)) 0 0
      (hw_threads (fst s), kmp_affin_fullMask (snd s), kmp_avail_proc (snd s))"
  have inv: "\<forall>j<fst ?r. KMP_CPU_ISSET (os_id (fst (snd ?r) ! j)) msk"
    using assms(2) by (intro restrict_loop_in_mask) simp_all
  have "hw_threads (fst s') = fst (snd ?r) \<and> num_hw_threads (fst s') = fst ?r"
  proof (cases "num_hw_threads (fst s) \<noteq> fst ?r")
    case False
    then show ?thesis using assms(1) by (auto simp: restrict_to_mask_def Let_def)
  next
    case True
    let ?tp1 = "(fst s)\<lparr>hw_threads := fst (snd ?r), num_hw_threads := fst ?r\<rparr>"
    from True assms(1) obtain tp2 g2 where
        g: "gather_enumeration_information ?tp1 = Inr tp2"
      and l: "set_last_level_cache g2 (discover_uniformity tp2) = Inr (fst s')"
      unfolding restrict_to_mask_def Let_def
      by (auto simp: bind_err_Inr split: if_splits)
    from set_last_level_cache_frame(5,6) [OF l] gather_enumeration_information_frame [OF g]
    show ?thesis by (simp add: discover_uniformity_frame)
  qed
  then show ?thesis using inv by (simp add: all_in_mask_def list_all_iff)
qed

text \<open>
  Claim C8.  Restricting to a mask that holds the OS id of every hardware thread in use
  (for instance the full mask, when it holds them) changes neither the topology nor the
  globals and returns false.  After a restriction to a mask has returned, a second
  restriction to the same mask changes nothing and returns false, so two applications
  leave the state of one.
\<close>

theorem restrict_to_mask_idempotent:
  "(all_in_mask msk (fst s) \<longrightarrow> restrict_to_mask cr msk s = Inr (False, s)) \<and>
   (all_in_mask (kmp_affin_fullMask (snd s)) (fst s) \<longrightarrow>
      restrict_to_mask cr (kmp_affin_fullMask (snd s)) s = Inr (False, s)) \<and>
   (threads_allocated (fst s) \<and> restrict_to_mask cr msk s = Inr (b, s') \<longrightarrow>
      restrict_to_mask cr msk s' = Inr (False, s'))"
  using restrict_to_mask_noop restrict_to_mask_all_in_mask
  unfolding threads_allocated_def by blast


text \<open>
  On the canonical machine with three threads, the masks \<open>{0, 1, 2}\<close> and the full mask
  change nothing; after the restriction to \<open>{0, 2}\<close> a second one changes nothing.
\<close>

theorem restrict_to_mask_idempotent_witness:
  "restrict_to_mask ex_calculate_ratio {0, 1, 2} ex_21_canonical = Inr (False, ex_21_canonical) \<and>
   restrict_to_mask ex_calculate_ratio (kmp_affin_fullMask (snd ex_21_canonical)) ex_21_canonical =
     Inr (False, ex_21_canonical) \<and>
   restrict_to_mask ex_calculate_ratio {0, 2} (snd ex_21_restricted) =
     Inr (False, snd ex_21_restricted)"
proof -
  let ?X = "restrict_to_mask ex_calculate_ratio {0, 2} ex_21_canonical"
  have a1: "all_in_mask {0, 1, 2} (fst ex_21_canonical)"
    by code_simp
  have a2: "all_in_mask (kmp_affin_fullMask (snd ex_21_canonical)) (fst ex_21_canonical)"
    by code_simp
  have a3: "threads_allocated (fst ex_21_canonical)"
    by code_simp
  have "succeeded ?X" by code_simp
  then have "?X = Inr (projr ?X)"
    by (simp add: succeeded_def split: sum.splits)
  then have res: "?X = Inr (fst ex_21_restricted, snd ex_21_restricted)"
    by (simp add: ex_21_restricted_def)
  note inst = restrict_to_mask_idempotent [where cr = ex_calculate_ratio and s = ex_21_canonical]
  have n1: "restrict_to_mask ex_calculate_ratio {0, 1, 2} ex_21_canonical =
      Inr (False, ex_21_canonical)"
    using inst [where msk = "{0, 1, 2}"] a1 by blast
  have n2: "restrict_to_mask ex_calculate_ratio (kmp_affin_fullMask (snd ex_21_canonical))
      ex_21_canonical = Inr (False, ex_21_canonical)"
    using inst [where msk = "{0, 1, 2}"] a2 by blast
  have n3: "restrict_to_mask ex_calculate_ratio {0, 2} (snd ex_21_restricted) =
      Inr (False, snd ex_21_restricted)"
    using inst [where msk = "{0, 2}" and b = "fst ex_21_restricted"
        and s' = "snd ex_21_restricted"] a3 res by blast
  show ?thesis using n1 n2 n3 by blast
qed

section \<open>Properties of the entry points for single bits\<close>

text \<open>
  Claim C5, as the code has it.  With a mask behind the pointer, each entry point returns
  -1 and leaves the mask alone when \<open>proc\<close> is negative or at least the maximum proc
  count.  For a proc in range that is not in the full mask, set and unset return -2 and
  get returns 0, all leaving the mask alone.  Only a proc that passes both checks is set
  (result 0), cleared (result 0) or read (result 1 or 0).
\<close>

theorem aux_affinity_mask_proc_results:
  "kmp_aux_set_affinity_mask_proc g proc (Some m) =
     Inr (if proc < 0 \<or> proc \<ge> kmp_aux_get_affinity_max_proc g then (-1, Some m)
          else if \<not> KMP_CPU_ISSET proc (kmp_affin_fullMask g) then (-2, Some m)
          else (0, Some (KMP_CPU_SET proc m))) \<and>
   kmp_aux_unset_affinity_mask_proc g proc (Some m) =
     Inr (if proc < 0 \<or> proc \<ge> kmp_aux_get_affinity_max_proc g then (-1, Some m)
          else if \<not> KMP_CPU_ISSET proc (kmp_affin_fullMask g) then (-2, Some m)
          else (0, Some (KMP_CPU_CLR proc m))) \<and>
   kmp_aux_get_affinity_mask_proc g proc (Some m) =
     Inr (if proc < 0 \<or> proc \<ge> kmp_aux_get_affinity_max_proc g then (-1, Some m)
          else if \<not> KMP_CPU_ISSET proc (kmp_affin_fullMask g) then (0, Some m)
          else ((if KMP_CPU_ISSET proc m then 1 else 0), Some m))"
  by (auto simp: kmp_aux_set_affinity_mask_proc_def kmp_aux_unset_affinity_mask_proc_def
      kmp_aux_get_affinity_mask_proc_def kmp_aux_get_affinity_max_proc_def)

text \<open>
  With four processors and the full mask \<open>{0, 1}\<close>: proc 7 is out of range, proc 2 is in
  range but outside the full mask, proc 1 passes both checks.
\<close>

theorem aux_affinity_mask_proc_results_witness:
  "kmp_aux_set_affinity_mask_proc ex_aux_globals 7 (Some {0}) = Inr (-1, Some {0}) \<and>
   kmp_aux_set_affinity_mask_proc ex_aux_globals 2 (Some {0}) = Inr (-2, Some {0}) \<and>
   kmp_aux_set_affinity_mask_proc ex_aux_globals 1 (Some {0}) = Inr (0, Some {0, 1}) \<and>
   kmp_aux_unset_affinity_mask_proc ex_aux_globals 2 (Some {0}) = Inr (-2, Some {0}) \<and>
   kmp_aux_unset_affinity_mask_proc ex_aux_globals 0 (Some {0}) = Inr (0, Some {}) \<and>
   kmp_aux_get_affinity_mask_proc ex_aux_globals (-1) (Some {0}) = Inr (-1, Some {0}) \<and>
   kmp_aux_get_affinity_mask_proc ex_aux_globals 0 (Some {0}) = Inr (1, Some {0})"
  using aux_affinity_mask_proc_results [of ex_aux_globals 7 "{0}"]
    aux_affinity_mask_proc_results [of ex_aux_globals 2 "{0}"]
    aux_affinity_mask_proc_results [of ex_aux_globals 1 "{0}"]
    aux_affinity_mask_proc_results [of ex_aux_globals 0 "{0}"]
    aux_affinity_mask_proc_results [of ex_aux_globals "-1" "{0}"]
  by (simp add: ex_aux_globals_def kmp_aux_get_affinity_max_proc_def KMP_CPU_ISSET_def
      KMP_CPU_SET_def KMP_CPU_CLR_def insert_commute)

text \<open>
  The claim as stated fails for the get entry point: for proc 2, in range but outside the
  full mask, it returns 0 and not -2, although the bit is set in the caller's mask.
\<close>

theorem aux_get_affinity_mask_proc_counterexample:
  "0 \<le> (2::int) \<and> 2 < kmp_aux_get_affinity_max_proc ex_aux_globals \<and>
   \<not> KMP_CPU_ISSET 2 (kmp_affin_fullMask ex_aux_globals) \<and>
   kmp_aux_get_affinity_mask_proc ex_aux_globals 2 (Some {2}) = Inr (0, Some {2})"
  by (simp add: kmp_aux_get_affinity_mask_proc_def kmp_aux_get_affinity_max_proc_def
      ex_aux_globals_def KMP_CPU_ISSET_def)

section \<open>Properties of the balanced assignment\<close>

lemma int_div_less:
  fixes a b c :: int
  assumes "0 < c" "a < b * c"
  shows "a div c < b"
proof (rule ccontr)
  assume "\<not> a div c < b"
  then have "b \<le> a div c" by simp
  then have "b * c \<le> (a div c) * c" using assms(1) by (simp add: mult_right_mono)
  also have "\<dots> = a - a mod c" by (simp add: minus_mod_eq_div_mult)
  also have "\<dots> \<le> a" using assms(1) by simp
  finally show False using assms(2) by simp
qed

lemma sdiv_nonneg: "0 \<le> (a::int) \<Longrightarrow> 0 \<le> b \<Longrightarrow> a sdiv b = a div b"
  by (cases "a = 0"; cases "b = 0"; simp add: signed_divide_int_def sgn_if)

lemma smod_nonneg: "0 \<le> (a::int) \<Longrightarrow> 0 \<le> b \<Longrightarrow> a smod b = a mod b"
  using smod_mod_positive by simp

text \<open>The core index is a core, in both branches.\<close>

lemma balanced_big_core:
  fixes tid nthreads ncores :: int
  assumes "0 \<le> tid" "0 < ncores" "0 \<le> nthreads"
    "tid < (nthreads mod ncores) * (nthreads div ncores + 1)"
  shows "0 \<le> tid div (nthreads div ncores + 1)" "tid div (nthreads div ncores + 1) < ncores"
proof -
  have chunk: "0 \<le> nthreads div ncores" using assms(2,3) by (simp add: pos_imp_zdiv_nonneg_iff)
  then show "0 \<le> tid div (nthreads div ncores + 1)"
    using assms(1) by (simp add: pos_imp_zdiv_nonneg_iff)
  have "tid div (nthreads div ncores + 1) < nthreads mod ncores"
    using chunk assms(4) by (intro int_div_less) simp_all
  moreover have "nthreads mod ncores < ncores" using assms(2) by simp
  ultimately show "tid div (nthreads div ncores + 1) < ncores" by simp
qed

lemma balanced_small_core:
  fixes tid nthreads ncores :: int
  assumes "0 \<le> tid" "tid < nthreads" "0 < ncores"
    "\<not> tid < (nthreads mod ncores) * (nthreads div ncores + 1)"
  shows "0 < nthreads div ncores" "0 \<le> tid - nthreads mod ncores"
    "0 \<le> (tid - nthreads mod ncores) div (nthreads div ncores)"
    "(tid - nthreads mod ncores) div (nthreads div ncores) < ncores"
proof -
  let ?chunk = "nthreads div ncores" and ?big = "nthreads mod ncores"
  have nn: "0 \<le> nthreads" using assms(1,2) by simp
  have chunk0: "0 \<le> ?chunk" using assms(3) nn by (simp add: pos_imp_zdiv_nonneg_iff)
  have big0: "0 \<le> ?big" using assms(3) by simp
  have split: "nthreads = ncores * ?chunk + ?big" by simp
  have ge: "?big * (?chunk + 1) \<le> tid" using assms(4) by simp
  show chunk: "0 < ?chunk"
  proof (rule ccontr)
    assume "\<not> 0 < ?chunk"
    then have z: "?chunk = 0" using chunk0 by simp
    then have "?big = nthreads" using split by simp
    then show False using ge assms(2) z by simp
  qed
  have "?big \<le> ?big * (?chunk + 1)"
    using big0 chunk0 by (simp add: mult_le_cancel_left1)
  then show diff: "0 \<le> tid - ?big" using ge by simp
  then show "0 \<le> (tid - ?big) div ?chunk"
    using chunk by (simp add: pos_imp_zdiv_nonneg_iff)
  have "tid - ?big < nthreads - ?big" using assms(2) by simp
  also have "\<dots> = ncores * ?chunk" by (simp add: minus_mod_eq_mult_div)
  finally show "(tid - ?big) div ?chunk < ncores"
    using chunk by (intro int_div_less) simp_all
qed

lemma topology_at_inside:
  "0 \<le> index \<Longrightarrow> index < int (num_hw_threads tp) \<Longrightarrow>
   topology_at tp index = Inr (hw_threads tp ! nat index)"
  by (simp add: topology_at_def)

lemma set_core_bits_inside:
  assumes "\<forall>i\<in>set is. 0 \<le> base + i \<and> base + i < int (num_hw_threads tp)"
  shows "set_core_bits tp base is msk =
         Inr (msk \<union> (\<lambda>i. os_id (hw_threads tp ! nat (base + i))) ` set is)"
  using assms
proof (induction "is" arbitrary: msk)
  case Nil
  then show ?case by simp
next
  case (Cons i "is")
  then show ?case
    by (simp add: topology_at_inside KMP_CPU_SET_def)
qed

lemma balanced_mask_inside:
  assumes "0 \<le> coreID" "coreID < ncores" "0 \<le> threadID" "threadID < npc"
    "ncores * npc \<le> int (num_hw_threads tp)"
  shows "balanced_mask fine tp npc coreID threadID =
         Inr (if fine then {os_id (hw_threads tp ! nat (coreID * npc + threadID))}
              else (\<lambda>i. os_id (hw_threads tp ! nat (coreID * npc + i))) ` {0..<npc})"
proof -
  have npc: "0 < npc" using assms(3,4) by simp
  have "(coreID + 1) * npc \<le> ncores * npc"
    using assms(2) npc by (intro mult_right_mono) simp_all
  then have bound: "(coreID + 1) * npc \<le> int (num_hw_threads tp)"
    using assms(5) by simp
  have core0: "0 \<le> coreID * npc" using assms(1) npc by simp
  have inside: "\<And>i. 0 \<le> i \<Longrightarrow> i < npc \<Longrightarrow>
      0 \<le> coreID * npc + i \<and> coreID * npc + i < int (num_hw_threads tp)"
  proof -
    fix i :: int assume i: "0 \<le> i" "i < npc"
    have "coreID * npc + i < (coreID + 1) * npc" using i by (simp add: algebra_simps)
    then show "0 \<le> coreID * npc + i \<and> coreID * npc + i < int (num_hw_threads tp)"
      using core0 i bound by linarith
  qed
  show ?thesis
  proof (cases fine)
    case True
    then show ?thesis
      using inside [OF assms(3,4)] by (simp add: balanced_mask_def topology_at_inside KMP_CPU_SET_def)
  next
    case False
    have img: "set (map int [0..<nat npc]) = {0..<npc}"
    proof (intro set_eqI iffI)
      fix x assume "x \<in> set (map int [0..<nat npc])"
      then show "x \<in> {0..<npc}" by auto
    next
      fix x assume "x \<in> {0..<npc}"
      then have "x = int (nat x)" "nat x < nat npc" by auto
      then show "x \<in> set (map int [0..<nat npc])"
        by (metis atLeastLessThan_iff image_eqI le0 set_map set_upt)
    qed
    have "\<forall>i\<in>set (map int [0..<nat npc]).
        0 \<le> coreID * npc + i \<and> coreID * npc + i < int (num_hw_threads tp)"
      unfolding img using inside by simp
    from set_core_bits_inside [OF this, of "{}"] False show ?thesis
      by (simp add: balanced_mask_def img del: set_map)
  qed
qed

lemma balanced_uniform_dims:
  assumes "0 \<le> tid" and "tid < nthreads"
    and "\<not> hidden_helper" and "uniform tp"
    and "kmp_ncores g \<noteq> 0" and "balanced_dims g = (nth_per_core, ncores)"
    and "0 < ncores" and "0 < nth_per_core"
    and "ncores * nth_per_core \<le> int (num_hw_threads tp)"
  shows "kmp_balanced_affinity nonuniform hidden_helper g aff tp tid nthreads th_affin_mask =
         Inr (if fine_gran g aff
              then {os_id (hw_threads tp !
                      nat (spec_balanced_core nthreads ncores tid * nth_per_core +
                           spec_balanced_slot nthreads ncores nth_per_core tid))}
              else (\<lambda>i. os_id (hw_threads tp !
                      nat (spec_balanced_core nthreads ncores tid * nth_per_core + i))) `
                   {0..<nth_per_core})"
proof -
  let ?chunk = "nthreads div ncores" and ?big = "nthreads mod ncores"
  have nn: "0 \<le> nthreads" using assms(1,2) by simp
  have chunk0: "0 \<le> ?chunk" using assms(7) nn by (simp add: pos_imp_zdiv_nonneg_iff)
  have big0: "0 \<le> ?big" using assms(7) by simp
  have sd: "nthreads sdiv ncores = ?chunk" "nthreads smod ncores = ?big"
    using nn assms(7) by (simp_all add: sdiv_nonneg smod_nonneg)
  have dims: "fst (balanced_dims g) = nth_per_core" "snd (balanced_dims g) = ncores"
    using assms(6) by simp_all
  show ?thesis
  proof (cases "tid < ?big * (?chunk + 1)")
    case True
    note core = balanced_big_core [OF assms(1,7) nn True]
    have slot: "0 \<le> (tid mod (?chunk + 1)) mod nth_per_core"
      "(tid mod (?chunk + 1)) mod nth_per_core < nth_per_core"
      using assms(8) by simp_all
    have m0: "0 \<le> tid mod (?chunk + 1)" using chunk0 by simp
    have code: "balanced_uniform g aff tp tid nthreads =
        balanced_mask (fine_gran g aff) tp nth_per_core (tid div (?chunk + 1))
          ((tid mod (?chunk + 1)) mod nth_per_core)"
      using True assms(1,5,7,8) chunk0 m0
      by (simp add: balanced_uniform_def dims sd Let_def sdiv_nonneg smod_nonneg mult.commute)
    have spec: "spec_balanced_core nthreads ncores tid = tid div (?chunk + 1)"
      "spec_balanced_slot nthreads ncores nth_per_core tid =
        (tid mod (?chunk + 1)) mod nth_per_core"
      using True by (simp_all add: spec_balanced_core_def spec_balanced_slot_def Let_def)
    show ?thesis
      using assms(3,4) balanced_mask_inside [OF core slot assms(9), of "fine_gran g aff"]
      by (simp add: kmp_balanced_affinity_def code spec)
  next
    case False
    note core = balanced_small_core [OF assms(1,2,7) False]
    have slot: "0 \<le> ((tid - ?big) mod ?chunk) mod nth_per_core"
      "((tid - ?big) mod ?chunk) mod nth_per_core < nth_per_core"
      using assms(8) by simp_all
    have m0: "0 \<le> (tid - ?big) mod ?chunk" using core(1) by simp
    have code: "balanced_uniform g aff tp tid nthreads =
        balanced_mask (fine_gran g aff) tp nth_per_core ((tid - ?big) div ?chunk)
          (((tid - ?big) mod ?chunk) mod nth_per_core)"
      using False assms(5,7,8) core(1,2) m0
      by (simp add: balanced_uniform_def dims sd Let_def sdiv_nonneg smod_nonneg mult.commute)
    have spec: "spec_balanced_core nthreads ncores tid = (tid - ?big) div ?chunk"
      "spec_balanced_slot nthreads ncores nth_per_core tid =
        ((tid - ?big) mod ?chunk) mod nth_per_core"
      using False by (simp_all add: spec_balanced_core_def spec_balanced_slot_def Let_def)
    show ?thesis
      using assms(3,4)
        balanced_mask_inside [OF core(3,4) slot assms(9), of "fine_gran g aff"]
      by (simp add: kmp_balanced_affinity_def code spec)
  qed
qed

text \<open>
  Claim C2 (amended).  On a uniform topology, for a thread index \<open>tid\<close> among
  \<open>nthreads\<close> threads (not a hidden helper thread), the threads are placed on \<open>ncores\<close>
  units of \<open>nth_per_core\<close> hardware threads each.  The units are the cores, with the
  available processors divided by the number of cores as \<open>nth_per_core\<close>; but on a
  machine of more than one package where that quotient is at most one, the units are the
  packages, with the available processors divided by the number of packages.  The thread
  gets the unit and the slot of the specification; with fine granularity its mask is the
  OS id of the hardware thread at position \<open>unit * nth_per_core + slot\<close>, with coarse
  granularity the OS ids of all \<open>nth_per_core\<close> hardware threads of that unit.
\<close>

theorem balanced_uniform_assignment:
  assumes "0 \<le> tid" and "tid < nthreads"
    and "\<not> hidden_helper" and "uniform tp"
    and "kmp_ncores g \<noteq> 0"
    and "packages \<longleftrightarrow> nPackages g > 1 \<and> kmp_avail_proc g sdiv kmp_ncores g \<le> 1"
    and "ncores = (if packages then nPackages g else kmp_ncores g)"
    and "nth_per_core = kmp_avail_proc g sdiv ncores"
    and "0 < ncores" and "0 < nth_per_core"
    and "ncores * nth_per_core \<le> int (num_hw_threads tp)"
  shows "kmp_balanced_affinity nonuniform hidden_helper g aff tp tid nthreads th_affin_mask =
         Inr (if fine_gran g aff
              then {os_id (hw_threads tp !
                      nat (spec_balanced_core nthreads ncores tid * nth_per_core +
                           spec_balanced_slot nthreads ncores nth_per_core tid))}
              else (\<lambda>i. os_id (hw_threads tp !
                      nat (spec_balanced_core nthreads ncores tid * nth_per_core + i))) `
                   {0..<nth_per_core})"
proof -
  have "balanced_dims g = (nth_per_core, ncores)"
    using assms(6,7,8) by (simp add: balanced_dims_def)
  from balanced_uniform_dims [OF assms(1,2,3,4,5) this assms(9,10,11)]
  show ?thesis .
qed

theorem balanced_uniform_assignment_witness:
  "uniform ex_balanced_topology \<and> balanced_dims ex_balanced_globals = (2, 3) \<and>
   kmp_balanced_affinity Inr False ex_balanced_globals (ex_affinity KMP_HW_THREAD)
     ex_balanced_topology 2 4 {} = Inr {20} \<and>
   kmp_balanced_affinity Inr False ex_balanced_globals (ex_affinity KMP_HW_CORE)
     ex_balanced_topology 2 4 {} = Inr {20, 21}"
proof -
  have dims: "balanced_dims ex_balanced_globals = (2, 3)"
    by (simp add: balanced_dims_def ex_balanced_globals_def signed_divide_int_def)
  have pk: "False \<longleftrightarrow> nPackages ex_balanced_globals > 1 \<and>
      kmp_avail_proc ex_balanced_globals sdiv kmp_ncores ex_balanced_globals \<le> 1"
    and nc: "3 = (if False then nPackages ex_balanced_globals else kmp_ncores ex_balanced_globals)"
    and npc: "2 = kmp_avail_proc ex_balanced_globals sdiv 3"
    by (simp_all add: ex_balanced_globals_def signed_divide_int_def)
  have uni: "uniform ex_balanced_topology" by (simp add: ex_balanced_topology_def)
  have size: "(3::int) * 2 \<le> int (num_hw_threads ex_balanced_topology)"
    by (simp add: ex_balanced_topology_def)
  have cores: "kmp_ncores ex_balanced_globals \<noteq> 0" by (simp add: ex_balanced_globals_def)
  have core: "spec_balanced_core 4 3 2 = 1" by (simp add: spec_balanced_core_def)
  have slot: "spec_balanced_slot 4 3 2 2 = 0" by (simp add: spec_balanced_slot_def)
  have range: "{0..<2::int} = {0, 1}" by auto
  have fine: "fine_gran ex_balanced_globals (ex_affinity KMP_HW_THREAD)"
    "\<not> fine_gran ex_balanced_globals (ex_affinity KMP_HW_CORE)"
    by (simp_all add: fine_gran_def ex_affinity_def ex_balanced_globals_def)
  have ids: "os_id (hw_threads ex_balanced_topology ! 2) = 20"
    "os_id (hw_threads ex_balanced_topology ! 3) = 21"
    by (simp_all add: ex_balanced_topology_def ex_die_thread_def ex_thread_def)
  have "kmp_balanced_affinity Inr False ex_balanced_globals (ex_affinity KMP_HW_THREAD)
     ex_balanced_topology 2 4 {} = Inr {20}"
    using balanced_uniform_assignment [of 2 4 False ex_balanced_topology ex_balanced_globals
        False 3 2 Inr "ex_affinity KMP_HW_THREAD" "{}", OF _ _ _ uni cores pk nc npc _ _ size]
    by (simp add: core slot fine ids)
  moreover have "kmp_balanced_affinity Inr False ex_balanced_globals (ex_affinity KMP_HW_CORE)
     ex_balanced_topology 2 4 {} = Inr {20, 21}"
    using balanced_uniform_assignment [of 2 4 False ex_balanced_topology ex_balanced_globals
        False 3 2 Inr "ex_affinity KMP_HW_CORE" "{}", OF _ _ _ uni cores pk nc npc _ _ size]
    by (simp add: core fine ids range nat_add_distrib)
  ultimately show ?thesis using dims uni by simp
qed

text \<open>
  The claim as stated fails on the machine of two packages with three cores of one
  thread each: for the thread 1 of 2 the code takes the two packages as the units and
  binds the thread to the OS id 20 (fine granularity) or to the whole second package
  (coarse granularity), where the formula of the claim with the six cores of one thread
  gives the hardware thread at position 1, which has the OS id 11.
\<close>

theorem balanced_uniform_counterexample:
  "uniform ex_package_topology \<and>
   kmp_balanced_affinity Inr False ex_package_globals (ex_affinity KMP_HW_THREAD)
     ex_package_topology 1 2 {} = Inr {20} \<and>
   kmp_balanced_affinity Inr False ex_package_globals (ex_affinity KMP_HW_SOCKET)
     ex_package_topology 1 2 {} = Inr {20, 21, 22} \<and>
   spec_balanced_core 2 6 1 * 1 + spec_balanced_slot 2 6 1 1 = 1 \<and>
   os_id (hw_threads ex_package_topology ! 1) = 11"
  by code_simp

section \<open>Properties of the count clause\<close>












section \<open>Properties of the mask printers\<close>

lemma mask_scan_found:
  assumes "r \<le> x" and "x < e" and "x \<in> m" and "\<forall>y. r \<le> y \<and> y < x \<longrightarrow> y \<notin> m"
  shows "mask_scan e m r = x"
  using assms
proof (induction e m r rule: mask_scan.induct)
  case (1 e m r)
  show ?case
  proof (cases "r = x")
    case True
    then show ?thesis using "1.prems" by (subst mask_scan.simps) (simp add: KMP_CPU_ISSET_def)
  next
    case False
    then have less: "r < x" using "1.prems"(1) by simp
    then have go: "r < e \<and> \<not> KMP_CPU_ISSET r m"
      using "1.prems" by (simp add: KMP_CPU_ISSET_def)
    have "mask_scan e m (r + 1) = x"
      using less "1.prems" by (intro "1.IH" [OF go]) auto
    then show ?thesis using go by (subst mask_scan.simps) simp
  qed
qed

lemma mask_scan_none:
  assumes "r \<le> e" and "\<forall>y. r \<le> y \<and> y < e \<longrightarrow> y \<notin> m"
  shows "mask_scan e m r = e"
  using assms
proof (induction e m r rule: mask_scan.induct)
  case (1 e m r)
  show ?case
  proof (cases "r = e")
    case True
    then show ?thesis by (subst mask_scan.simps) simp
  next
    case False
    then have less: "r < e" using "1.prems"(1) by simp
    then have go: "r < e \<and> \<not> KMP_CPU_ISSET r m"
      using "1.prems" by (simp add: KMP_CPU_ISSET_def)
    have "mask_scan e m (r + 1) = e"
      using less "1.prems" by (intro "1.IH" [OF go]) auto
    then show ?thesis using go by (subst mask_scan.simps) simp
  qed
qed

lemma mask_next_first:
  assumes "m \<subseteq> {0..<e}" and "p < e" and "ids_above m p xs"
  shows "mask_next e m p = first_or e xs"
proof (cases xs)
  case Nil
  then have "\<forall>y. p + 1 \<le> y \<and> y < e \<longrightarrow> y \<notin> m"
    using assms(3) by (auto simp: ids_above_def)
  then show ?thesis
    using assms(2) Nil by (simp add: mask_next_def first_or_def mask_scan_none)
next
  case (Cons x rest)
  have x: "x \<in> m" "p < x"
    using assms(3) Cons by (auto simp: ids_above_def)
  have least: "\<forall>y. p + 1 \<le> y \<and> y < x \<longrightarrow> y \<notin> m"
  proof (intro allI impI notI)
    fix y assume y: "p + 1 \<le> y \<and> y < x" and "y \<in> m"
    then have "y \<in> set (x # rest)" using assms(3) Cons by (auto simp: ids_above_def)
    moreover have "\<forall>z\<in>set rest. x < z" using assms(3) Cons by (simp add: ids_above_def)
    ultimately show False using y by auto
  qed
  have "x < e" using x(1) assms(1) by auto
  then have "mask_scan e m (p + 1) = x"
    using x least by (intro mask_scan_found) simp_all
  then show ?thesis using Cons by (simp add: mask_next_def first_or_def)
qed

lemma ids_above_tail:
  assumes "ids_above m p (x # xs)"
  shows "ids_above m x xs" and "x \<in> m" and "p < x"
proof -
  have sorted: "\<forall>z\<in>set xs. x < z" "sorted_wrt (<) xs"
    and elems: "set (x # xs) = {y \<in> m. p < y}"
    using assms by (simp_all add: ids_above_def)
  show "x \<in> m" "p < x" using elems by auto
  have "set xs = {y \<in> m. x < y}"
  proof (intro set_eqI iffI)
    fix y assume "y \<in> set xs"
    then show "y \<in> {y \<in> m. x < y}" using sorted(1) elems by auto
  next
    fix y assume y: "y \<in> {y \<in> m. x < y}"
    then have "y \<in> set (x # xs)" using elems \<open>p < x\<close> by auto
    then show "y \<in> set xs" using y by auto
  qed
  then show "ids_above m x xs" using sorted(2) by (simp add: ids_above_def)
qed

lemma ids_above_sorted_list:
  assumes "m \<subseteq> {0..<e}"
  shows "ids_above m (- 1) (sorted_list_of_set m)"
proof -
  have "finite m" using assms by (rule finite_subset) simp
  moreover have "{y \<in> m. - 1 < y} = m" using assms by auto
  ultimately show ?thesis by (simp add: ids_above_def)
qed

text \<open>The inner loop ends, with the end of the run and the first id of the next run.\<close>

lemma find_range_run:
  assumes "m \<subseteq> {0..<e}" and "b \<in> m" and "ids_above m b xs"
  shows "\<exists>b' xs'. find_range e m b (first_or e xs) = Some (b', first_or e xs') \<and>
           runs_from a b xs = (a, b') # runs_of xs' \<and> b' \<in> m \<and>
           (xs' = [] \<or> (\<exists>x rest. xs' = x # rest \<and> x \<in> m \<and> ids_above m x rest)) \<and>
           length xs' \<le> length xs"
  using assms(2,3)
proof (induction xs arbitrary: b)
  case Nil
  have "find_range e m b e = Some (b, e)" by (subst find_range.simps) simp
  then show ?case using Nil by (intro exI [of _ b] exI [of _ "[]"]) (simp add: first_or_def)
next
  case (Cons x xs)
  note tail = ids_above_tail [OF Cons.prems(2)]
  have xe: "x < e" using tail(2) assms(1) by auto
  show ?case
  proof (cases "x = b + 1")
    case True
    have "find_range e m b (first_or e (x # xs)) = find_range e m x (mask_next e m x)"
      using True xe by (subst find_range.simps) (simp add: first_or_def)
    also have "\<dots> = find_range e m x (first_or e xs)"
      using mask_next_first [OF assms(1) xe tail(1)] by simp
    finally have step: "find_range e m b (first_or e (x # xs)) =
        find_range e m x (first_or e xs)" .
    from Cons.IH [OF tail(2) tail(1)] obtain b' xs' where
      "find_range e m x (first_or e xs) = Some (b', first_or e xs')"
      "runs_from a x xs = (a, b') # runs_of xs'" "b' \<in> m"
      "xs' = [] \<or> (\<exists>y rest. xs' = y # rest \<and> y \<in> m \<and> ids_above m y rest)"
      "length xs' \<le> length xs"
      by blast
    then show ?thesis
      using step True by (intro exI [of _ b'] exI [of _ xs']) simp
  next
    case False
    have "find_range e m b (first_or e (x # xs)) = Some (b, first_or e (x # xs))"
      using False by (subst find_range.simps) (simp add: first_or_def)
    then show ?thesis
      using False Cons.prems(1) tail
      by (intro exI [of _ b] exI [of _ "x # xs"]) simp
  qed
qed

lemma runs_from_not_Nil: "runs_from a b xs \<noteq> []"
  by (induction xs arbitrary: a b) simp_all

lemma comma_separated_Cons:
  "ts \<noteq> [] \<Longrightarrow> comma_separated (s # ts) = s @ '','' @ comma_separated ts"
  by (cases ts) simp_all

lemma print_u_dec: "0 \<le> v \<Longrightarrow> v < 2 ^ 32 \<Longrightarrow> print_u v = print_dec (nat v)"
  by (simp add: print_u_def)

lemma str_buf_range_text:
  assumes "0 \<le> a" "a < 2 ^ 32" "0 \<le> b" "b < 2 ^ 32"
  shows "str_buf_range first_range a b buf =
         buf @ (if first_range then [] else '','') @ run_text (a, b)"
  using assms
  by (auto simp: str_buf_range_def kmp_str_buf_print_def run_text_def print_u_dec Let_def)

lemma KMP_SNPRINTF_take:
  "KMP_SNPRINTF cap (take cap buf) text = take cap (buf @ text)"
  by (cases "length buf \<le> cap") (simp_all add: KMP_SNPRINTF_def)

lemma print_mask_range_text:
  assumes "0 \<le> a" "a < 2 ^ 32" "0 \<le> b" "b < 2 ^ 32"
  shows "print_mask_range cap first_range a b (take cap buf) =
         take cap (buf @ (if first_range then [] else '','') @ run_text (a, b))"
proof -
  show ?thesis
    using assms
    by (simp add: print_mask_range_def run_text_def print_u_dec Let_def KMP_SNPRINTF_take
        del: take_append)
qed

lemma str_buf_mask_loop_text:
  assumes "m \<subseteq> {0..<e}" and "e \<le> 2 ^ 32" and "a \<in> m" and "ids_above m a xs"
  shows "str_buf_mask_loop e m first_range a buf =
         Some (buf @ (if first_range then [] else '','') @
               comma_separated (map run_text (runs_from a a xs)))"
  using assms(3,4)
proof (induction "length xs" arbitrary: xs a first_range buf rule: less_induct)
  case less
  have ae: "a < e" "0 \<le> a" using less.prems(1) assms(1) by auto
  from find_range_run [OF assms(1) less.prems(1,2), of a] obtain b' xs' where
    range: "find_range e m a (first_or e xs) = Some (b', first_or e xs')"
    and runs: "runs_from a a xs = (a, b') # runs_of xs'" and b': "b' \<in> m"
    and rest: "xs' = [] \<or> (\<exists>x r. xs' = x # r \<and> x \<in> m \<and> ids_above m x r)"
    and len: "length xs' \<le> length xs"
    by blast
  have be: "0 \<le> b'" "b' < 2 ^ 32" using b' assms(1,2) by auto
  have a32: "a < 2 ^ 32" using ae assms(2) by simp
  let ?buf = "buf @ (if first_range then [] else '','') @ run_text (a, b')"
  have printed: "str_buf_range first_range a b' buf = ?buf"
    by (rule str_buf_range_text [OF ae(2) a32 be])
  have nxt: "mask_next e m a = first_or e xs"
    by (rule mask_next_first [OF assms(1) ae(1) less.prems(2)])
  show ?case
  proof (cases xs')
    case Nil
    then have fo: "first_or e xs' = e" by (simp add: first_or_def)
    have "str_buf_mask_loop e m first_range a buf = Some ?buf"
      by (subst str_buf_mask_loop.simps) (simp add: nxt range printed fo)
    then show ?thesis using runs Nil by simp
  next
    case (Cons x r)
    then have x: "x \<in> m" "ids_above m x r" using rest by auto
    have xe: "x \<noteq> e" using x(1) assms(1) by auto
    have fo: "first_or e xs' = x" using Cons by (simp add: first_or_def)
    have "str_buf_mask_loop e m first_range a buf = str_buf_mask_loop e m False x ?buf"
      using xe by (subst str_buf_mask_loop.simps) (simp add: nxt range printed fo)
    also have "\<dots> = Some (?buf @ '','' @ comma_separated (map run_text (runs_from x x r)))"
      using less.hyps [of r x False ?buf] x len Cons by simp
    finally show ?thesis
      using runs Cons runs_from_not_Nil [of x x r] by (simp add: comma_separated_Cons)
  qed
qed

lemma run_text_not_Nil: "run_text r \<noteq> []"
proof -
  have "\<And>n. print_dec n \<noteq> []" by (subst print_dec.simps) simp
  then show ?thesis by (cases r) (simp add: run_text_def)
qed

lemma comma_separated_not_Nil:
  assumes "ts \<noteq> []"
  shows "comma_separated (map run_text ts) \<noteq> []"
proof (cases ts)
  case Nil
  then show ?thesis using assms by simp
next
  case (Cons r rs)
  then show ?thesis by (cases rs) (simp_all add: run_text_not_Nil)
qed

lemma take_cap_prefix:
  "prefix (take cap ys) ys \<and> length (take cap ys) \<le> cap \<and>
   (length ys \<le> cap \<longrightarrow> take cap ys = ys) \<and>
   min (length ys) (cap - 1) \<le> length (take cap ys)"
  by (simp add: take_is_prefix)

lemma print_mask_loop_text:
  assumes "m \<subseteq> {0..<e}" and "e \<le> 2 ^ 32" and "a \<in> m" and "ids_above m a xs"
    and "full = buf @ (if first_range then [] else '','') @
                 comma_separated (map run_text (runs_from a a xs))"
  shows "\<exists>text. print_mask_loop cap e m first_range a (take cap buf) = Some text \<and>
           prefix text full \<and> length text \<le> cap \<and>
           (length full \<le> cap \<longrightarrow> text = full) \<and>
           min (length full) (cap - 1) \<le> length text"
  using assms(3,4,5)
proof (induction "length xs" arbitrary: xs a first_range buf rule: less_induct)
  case less
  have ae: "a < e" "0 \<le> a" using less.prems(1) assms(1) by auto
  from find_range_run [OF assms(1) less.prems(1,2), of a] obtain b' xs' where
    range: "find_range e m a (first_or e xs) = Some (b', first_or e xs')"
    and runs: "runs_from a a xs = (a, b') # runs_of xs'" and b': "b' \<in> m"
    and rest: "xs' = [] \<or> (\<exists>x r. xs' = x # r \<and> x \<in> m \<and> ids_above m x r)"
    and len: "length xs' \<le> length xs"
    by blast
  have be: "0 \<le> b'" "b' < 2 ^ 32" using b' assms(1,2) by auto
  have a32: "a < 2 ^ 32" using ae assms(2) by simp
  let ?buf = "buf @ (if first_range then [] else '','') @ run_text (a, b')"
  define cur where "cur = take cap buf"
  define out where "out = take cap ?buf"
  have printed: "print_mask_range cap first_range a b' cur = out"
    unfolding cur_def out_def by (rule print_mask_range_text [OF ae(2) a32 be])
  have nxt: "mask_next e m a = first_or e xs"
    by (rule mask_next_first [OF assms(1) ae(1) less.prems(2)])
  have turn: "print_mask_loop cap e m first_range a cur =
      (if first_or e xs' = e then Some out
       else if int cap - int (length out) < 2 then Some out
       else print_mask_loop cap e m False (first_or e xs') out)"
    by (subst print_mask_loop.simps) (simp add: nxt range printed)
  have out: "prefix out ?buf" "length out \<le> cap" "length ?buf \<le> cap \<longrightarrow> out = ?buf"
    "min (length ?buf) (cap - 1) \<le> length out"
    unfolding out_def using take_cap_prefix [of cap ?buf] by blast+
  show ?case
  proof (cases xs')
    case Nil
    then have full: "full = ?buf" using less.prems(3) runs by simp
    have "first_or e xs' = e" using Nil by (simp add: first_or_def)
    then have "print_mask_loop cap e m first_range a cur = Some out"
      using turn by simp
    then have "print_mask_loop cap e m first_range a (take cap buf) = Some out"
      unfolding cur_def .
    then show ?thesis unfolding full using out by blast
  next
    case (Cons x r)
    then have x: "x \<in> m" "ids_above m x r" using rest by auto
    have xe: "x \<noteq> e" using x(1) assms(1) by auto
    have fo: "first_or e xs' = x" using Cons by (simp add: first_or_def)
    let ?tail = "comma_separated (map run_text (runs_from x x r))"
    have full: "full = ?buf @ '','' @ ?tail"
      using less.prems(3) runs Cons runs_from_not_Nil [of x x r]
      by (simp add: comma_separated_Cons)
    have tail: "?tail \<noteq> []"
      by (rule comma_separated_not_Nil [OF runs_from_not_Nil])
    have longer: "length ?buf + 2 \<le> length full"
      using tail unfolding full by (cases ?tail) simp_all
    have pre: "prefix out full"
    proof -
      have "prefix ?buf full" unfolding full by simp
      with out(1) show ?thesis by (rule prefix_order.trans)
    qed
    show ?thesis
    proof (cases "int cap - int (length out) < 2")
      case True
      have "print_mask_loop cap e m first_range a cur = Some out"
        using turn fo xe True by simp
      then have r: "print_mask_loop cap e m first_range a (take cap buf) = Some out"
        unfolding cur_def .
      have nofit: "\<not> length full \<le> cap"
      proof
        assume "length full \<le> cap"
        then have "length ?buf + 2 \<le> cap" using longer by simp
        moreover from this have "out = ?buf" using out(3) by simp
        ultimately have "length out + 2 \<le> cap" by simp
        then show False using True by simp
      qed
      have "cap - 1 \<le> length out" using True by linarith
      then have "min (length full) (cap - 1) \<le> length out" by (rule min.coboundedI2)
      then show ?thesis using r pre out(2) nofit by blast
    next
      case False
      have "print_mask_loop cap e m first_range a cur = print_mask_loop cap e m False x out"
        using turn fo xe False by simp
      then have r: "print_mask_loop cap e m first_range a (take cap buf) =
          print_mask_loop cap e m False x (take cap ?buf)"
        unfolding cur_def out_def .
      have "length r < length xs" using len Cons by simp
      moreover have "full = ?buf @ (if False then [] else '','') @ ?tail"
        using full by simp
      ultimately have "\<exists>text. print_mask_loop cap e m False x (take cap ?buf) = Some text \<and>
           prefix text full \<and> length text \<le> cap \<and>
           (length full \<le> cap \<longrightarrow> text = full) \<and>
           min (length full) (cap - 1) \<le> length text"
        using x by (intro less.hyps)
      then show ?thesis unfolding r .
    qed
  qed
qed

text \<open>
  Claim C10 (amended).  For a mask of ids below \<open>mask_end\<close>, the printer into a string
  buffer gives the text of the specification: the runs of the mask in ascending order
  and separated by commas, a run of three or more ids as a closed range, a run of two ids
  as the two ids with a comma, a run of one id as the id, and \<^verbatim>\<open>{<empty>}\<close> for the
  empty mask.  The printer into a character array of \<open>buf_len\<close> characters gives a prefix
  of that text of at most \<open>buf_len - 1\<close> characters: the text itself when it fits, and
  otherwise its first \<open>buf_len - 1\<close> or \<open>buf_len - 2\<close> characters.
\<close>

theorem affinity_mask_text:
  assumes "msk \<subseteq> {0..<mask_end}" and "0 \<le> mask_end" and "mask_end \<le> 2 ^ 32"
  shows "kmp_affinity_str_buf_mask mask_end msk = Some (spec_mask_text msk) \<and>
         (40 \<le> buf_len \<longrightarrow>
            (\<exists>text. kmp_affinity_print_mask buf_len mask_end msk = Some (Inr text) \<and>
               prefix text (spec_mask_text msk) \<and>
               int (length text) \<le> buf_len - 1 \<and>
               (int (length (spec_mask_text msk)) \<le> buf_len - 1 \<longrightarrow>
                  text = spec_mask_text msk) \<and>
               min (int (length (spec_mask_text msk))) (buf_len - 2) \<le> int (length text)))"
proof (cases "msk = {}")
  case True
  have first: "mask_begin mask_end msk = mask_end"
    using True assms(2) by (simp add: mask_begin_def mask_scan_none)
  have A: "kmp_affinity_str_buf_mask mask_end msk = Some (spec_mask_text msk)"
    using True first
    by (simp add: kmp_affinity_str_buf_mask_def spec_mask_text_def kmp_str_buf_print_def)
  have B: "40 \<le> buf_len \<Longrightarrow>
      kmp_affinity_print_mask buf_len mask_end msk = Some (Inr ''{<empty>}'')"
    using first by (simp add: kmp_affinity_print_mask_def KMP_SNPRINTF_def check_scan_def)
  show ?thesis using A B True by (auto simp: spec_mask_text_def)
next
  case False
  have fin: "finite msk" using assms(1) by (rule finite_subset) simp
  then obtain x xs where list: "sorted_list_of_set msk = x # xs"
    using False by (cases "sorted_list_of_set msk") simp_all
  have above: "ids_above msk (- 1) (x # xs)"
    using ids_above_sorted_list [OF assms(1)] list by simp
  note tail = ids_above_tail [OF above]
  have "mask_next mask_end msk (- 1) = first_or mask_end (x # xs)"
    using assms(2) by (intro mask_next_first [OF assms(1) _ above]) simp
  then have first: "mask_begin mask_end msk = x"
    by (simp add: mask_begin_def mask_next_def first_or_def)
  have xe: "x \<noteq> mask_end" using tail(2) assms(1) by auto
  have spec: "spec_mask_text msk = comma_separated (map run_text (runs_from x x xs))"
    using False list by (simp add: spec_mask_text_def mask_runs_def)
  have A: "kmp_affinity_str_buf_mask mask_end msk = Some (spec_mask_text msk)"
    using str_buf_mask_loop_text [OF assms(1,3) tail(2,1), of True "[]"] first xe
    by (simp add: kmp_affinity_str_buf_mask_def spec)
  have B: "\<exists>text. kmp_affinity_print_mask buf_len mask_end msk = Some (Inr text) \<and>
               prefix text (spec_mask_text msk) \<and>
               int (length text) \<le> buf_len - 1 \<and>
               (int (length (spec_mask_text msk)) \<le> buf_len - 1 \<longrightarrow>
                  text = spec_mask_text msk) \<and>
               min (int (length (spec_mask_text msk))) (buf_len - 2) \<le> int (length text)"
    if len: "40 \<le> buf_len"
  proof -
    let ?cap = "nat (buf_len - 1)"
    from print_mask_loop_text [OF assms(1,3) tail(2,1), of "spec_mask_text msk" "[]" True ?cap]
    obtain out where
      loop: "print_mask_loop ?cap mask_end msk True x [] = Some out"
      and pre: "prefix out (spec_mask_text msk)" and cap: "length out \<le> ?cap"
      and fit: "length (spec_mask_text msk) \<le> ?cap \<longrightarrow> out = spec_mask_text msk"
      and low: "min (length (spec_mask_text msk)) (?cap - 1) \<le> length out"
      using spec by auto
    have "kmp_affinity_print_mask buf_len mask_end msk = Some (Inr out)"
      using len first xe loop cap
      by (simp add: kmp_affinity_print_mask_def check_scan_def)
    moreover have "int (length out) \<le> buf_len - 1" using cap len by simp
    moreover have "int (length (spec_mask_text msk)) \<le> buf_len - 1 \<longrightarrow>
        out = spec_mask_text msk"
      using fit len by simp
    moreover have "min (int (length (spec_mask_text msk))) (buf_len - 2) \<le> int (length out)"
    proof (cases "length (spec_mask_text msk) \<le> ?cap - 1")
      case True
      then have "length (spec_mask_text msk) \<le> length out" using low by simp
      then show ?thesis by simp
    next
      case False
      then have "?cap - 1 \<le> length out" using low by simp
      then have "buf_len - 2 \<le> int (length out)" using len by simp
      then show ?thesis by simp
    qed
    ultimately show ?thesis using pre by blast
  qed
  show ?thesis using A B by blast
qed

theorem affinity_mask_text_witness:
  "ex_runs_mask \<subseteq> {0..<128} \<and>
   kmp_affinity_str_buf_mask 128 ex_runs_mask = Some ''1,2,4-7,9'' \<and>
   kmp_affinity_print_mask 40 128 ex_runs_mask = Some (Inr ''1,2,4-7,9'')"
proof -
  have sub: "ex_runs_mask \<subseteq> {0..<128}" by (simp add: ex_runs_mask_def)
  have spec: "spec_mask_text ex_runs_mask = ''1,2,4-7,9''" by code_simp
  from affinity_mask_text [OF sub, of 40] show ?thesis
    using sub by (auto simp: spec)
qed

text \<open>
  The claim as stated fails for the printer into a character array: with the smallest
  buffer that is allowed, of 40 characters, the mask of the even ids up to 26 and the id
  100 is printed with \<open>10\<close> as its last id.
\<close>

theorem affinity_print_mask_counterexample:
  "kmp_affinity_print_mask 40 128 ex_print_mask =
     Some (Inr ''0,2,4,6,8,10,12,14,16,18,20,22,24,26,10'') \<and>
   kmp_affinity_str_buf_mask 128 ex_print_mask =
     Some ''0,2,4,6,8,10,12,14,16,18,20,22,24,26,100''"
  by code_simp

section \<open>Properties of the discovery from the legacy APIC ids\<close>

























end
